theory Spec2Isabelle
  imports Complex_Main "HOL-Library.Log_Nat"
begin

section \<open>ECMAScript numbers\<close>

text \<open>
  The tick functions of \<^verbatim>\<open>src/util/scale\<close> compute with ECMAScript numbers, that is
  IEEE 754 binary64 values. A number is modelled by its value: a real (always one that
  binary64 represents), the two infinities, or NaN. Every arithmetic operation computes
  the exact real result and rounds it to the nearest representable value, ties to even,
  as IEEE 754 prescribes. The sign of zero is not modelled: the functions below never
  divide by a negative zero, and \<^verbatim>\<open>-0 === 0\<close> holds in ECMAScript.
\<close>

datatype number = Fin real | PInf | NInf | NaN

subsection \<open>Rounding to binary64\<close>

definition round_even :: "real \<Rightarrow> int" where
  "round_even x =
     (let f = \<lfloor>x\<rfloor>; d = x - of_int f
      in if d < 1 / 2 then f else if 1 / 2 < d then f + 1 else if even f then f else f + 1)"

text \<open>\<open>ilog b x\<close> is \<open>\<lfloor>log\<^sub>b x\<rfloor>\<close> for \<open>0 < x\<close>, computed on natural numbers.\<close>

definition ilog :: "nat \<Rightarrow> real \<Rightarrow> int" where
  "ilog b x =
     (if 1 \<le> x then int (floorlog b (nat \<lfloor>x\<rfloor>)) - 1
      else - int (floorlog b (nat (\<lceil>1 / x\<rceil> - 1))))"

text \<open>
  The binary exponent of \<open>x\<close>, with the subnormal range below \<open>2\<^sup>-\<^sup>1\<^sup>0\<^sup>2\<^sup>2\<close> on the least
  exponent, and the spacing of the binary64 values around \<open>x\<close>: 53 significant bits.
\<close>

definition bexp :: "real \<Rightarrow> int" where
  "bexp x = max (ilog 2 \<bar>x\<bar>) (- 1022)"

definition quantum :: "real \<Rightarrow> real" where
  "quantum x = 2 powi (bexp x - 52)"

definition rnd :: "real \<Rightarrow> real" where
  "rnd x = of_int (round_even (x / quantum x)) * quantum x"

text \<open>A result beyond the largest binary64 value overflows to an infinity.\<close>

definition fl :: "real \<Rightarrow> number" where
  "fl x =
     (if 2 powi 1024 \<le> \<bar>rnd x\<bar> then (if 0 < x then PInf else NInf) else Fin (rnd x))"


text \<open>A number that is zero, positive or \<open>+\<infinity>\<close>.\<close>

fun nonneg :: "number \<Rightarrow> bool" where
  "nonneg (Fin x) = (0 \<le> x)"
| "nonneg PInf = True"
| "nonneg _ = False"

subsection \<open>Operators\<close>

fun num_neg :: "number \<Rightarrow> number" where
  "num_neg (Fin x) = Fin (- x)"
| "num_neg PInf = NInf"
| "num_neg NInf = PInf"
| "num_neg NaN = NaN"

fun num_add :: "number \<Rightarrow> number \<Rightarrow> number" where
  "num_add (Fin a) (Fin b) = fl (a + b)"
| "num_add NaN _ = NaN"
| "num_add _ NaN = NaN"
| "num_add PInf NInf = NaN"
| "num_add NInf PInf = NaN"
| "num_add PInf _ = PInf"
| "num_add NInf _ = NInf"
| "num_add _ PInf = PInf"
| "num_add _ NInf = NInf"

definition num_sub :: "number \<Rightarrow> number \<Rightarrow> number" where
  "num_sub a b = num_add a (num_neg b)"

text \<open>The sign of a non-NaN number, for products and quotients with an infinity.\<close>

fun num_sgn :: "number \<Rightarrow> int" where
  "num_sgn (Fin x) = (if 0 < x then 1 else if x < 0 then - 1 else 0)"
| "num_sgn PInf = 1"
| "num_sgn NInf = - 1"
| "num_sgn NaN = 0"

definition inf_of_sgn :: "int \<Rightarrow> number" where
  "inf_of_sgn s = (if 0 < s then PInf else if s < 0 then NInf else NaN)"

fun num_mul :: "number \<Rightarrow> number \<Rightarrow> number" where
  "num_mul (Fin a) (Fin b) = fl (a * b)"
| "num_mul NaN _ = NaN"
| "num_mul _ NaN = NaN"
| "num_mul a b = inf_of_sgn (num_sgn a * num_sgn b)"

fun num_div :: "number \<Rightarrow> number \<Rightarrow> number" where
  "num_div (Fin a) (Fin b) = (if b = 0 then inf_of_sgn (num_sgn (Fin a)) else fl (a / b))"
| "num_div NaN _ = NaN"
| "num_div _ NaN = NaN"
| "num_div (Fin a) _ = Fin 0"
| "num_div a (Fin b) = (if b < 0 then num_neg a else a)"
| "num_div _ _ = NaN"

text \<open>
  The remainder operator \<^verbatim>\<open>%\<close>: the result takes the sign of the dividend and is
  exact (IEEE 754 \<^verbatim>\<open>fmod\<close>), so it is not rounded.
\<close>

definition trunc :: "real \<Rightarrow> int" where
  "trunc x = (if 0 \<le> x then \<lfloor>x\<rfloor> else \<lceil>x\<rceil>)"

fun num_mod :: "number \<Rightarrow> number \<Rightarrow> number" where
  "num_mod (Fin a) (Fin b) = (if b = 0 then NaN else Fin (a - b * of_int (trunc (a / b))))"
| "num_mod NaN _ = NaN"
| "num_mod _ NaN = NaN"
| "num_mod (Fin a) _ = Fin a"
| "num_mod _ _ = NaN"

fun num_less :: "number \<Rightarrow> number \<Rightarrow> bool" where
  "num_less (Fin a) (Fin b) = (a < b)"
| "num_less NaN _ = False"
| "num_less _ NaN = False"
| "num_less PInf _ = False"
| "num_less _ NInf = False"
| "num_less _ _ = True"

text \<open>Strict equality \<^verbatim>\<open>===\<close> on numbers: NaN equals nothing.\<close>

definition num_eq :: "number \<Rightarrow> number \<Rightarrow> bool" where
  "num_eq a b \<longleftrightarrow> a \<noteq> NaN \<and> a = b"

definition num_le :: "number \<Rightarrow> number \<Rightarrow> bool" where
  "num_le a b \<longleftrightarrow> num_less a b \<or> num_eq a b"

definition num_gt :: "number \<Rightarrow> number \<Rightarrow> bool" where
  "num_gt a b = num_less b a"

definition num_ge :: "number \<Rightarrow> number \<Rightarrow> bool" where
  "num_ge a b = num_le b a"

fun isFinite :: "number \<Rightarrow> bool" where
  "isFinite (Fin x) = True"
| "isFinite _ = False"

fun isInteger :: "number \<Rightarrow> bool" where
  "isInteger (Fin x) = (of_int \<lfloor>x\<rfloor> = x)"
| "isInteger _ = False"

fun Math_floor :: "number \<Rightarrow> number" where
  "Math_floor (Fin x) = Fin (of_int \<lfloor>x\<rfloor>)"
| "Math_floor a = a"

fun Math_ceil :: "number \<Rightarrow> number" where
  "Math_ceil (Fin x) = Fin (of_int \<lceil>x\<rceil>)"
| "Math_ceil a = a"


fun Math_abs :: "number \<Rightarrow> number" where
  "Math_abs (Fin x) = Fin \<bar>x\<bar>"
| "Math_abs NInf = PInf"
| "Math_abs a = a"

subsection \<open>The functions of the runtime\<close>

text \<open>
  \<^verbatim>\<open>Math.log10\<close> and the operator \<^verbatim>\<open>**\<close> are implementation-approximated in
  ECMAScript: an engine returns a value near the exact one, not necessarily the nearest,
  and engines differ (in V8, \<^verbatim>\<open>Math.log10(99.99999999999999)\<close> is \<open>2\<close> and
  \<^verbatim>\<open>10 ** -4\<close> is \<open>0.00009999999999999999\<close>). The two functions are therefore
  parameters of the model, the fields of a \<open>runtime\<close>; the source only ever raises
  the base 10, so the second field is \<^verbatim>\<open>10 ** a\<close> as a function of \<open>a\<close>.
\<close>

record runtime =
  Math_log10 :: "number \<Rightarrow> number"
  pow10 :: "number \<Rightarrow> number"

text \<open>
  What is proved of the source is proved for every runtime that \<open>conforms\<close>:

    \<^item> \<^verbatim>\<open>Math.log10(x)\<close> is finite for every finite \<open>x > 0\<close>; it is at least \<open>k\<close> when
      \<open>10\<^sup>k (1 + 2\<^sup>-\<^sup>3\<^sup>2) \<le> x\<close> and less than \<open>k\<close> when \<open>x (1 + 2\<^sup>-\<^sup>3\<^sup>2) \<le> 10\<^sup>k\<close>. Only
      within the relative distance \<open>2\<^sup>-\<^sup>3\<^sup>2\<close> of a power of ten may the result lie on
      either side of the integer, far more room than the error of an engine, which is
      below one unit in the last place of the result;
    \<^item> \<^verbatim>\<open>Math.log10(1)\<close> is \<open>0\<close>, as ECMAScript prescribes;
    \<^item> \<^verbatim>\<open>10 ** a\<close> is NaN, zero, positive or \<open>+\<infinity>\<close>;
    \<^item> \<^verbatim>\<open>10 ** k\<close> is \<open>10\<^sup>k\<close> for the integers \<open>0 \<le> k \<le> 22\<close>, where \<open>10\<^sup>k\<close> is a
      binary64 value (ECMAScript prescribes \<^verbatim>\<open>10 ** 0 = 1\<close>; the others follow from an
      error below one unit in the last place);
    \<^item> \<^verbatim>\<open>10 ** k\<close> is finite and within a factor 2 of \<open>10\<^sup>k\<close> for the integers
      \<open>-308 \<le> k \<le> 308\<close>.
\<close>

definition conforms :: "runtime \<Rightarrow> bool" where
  "conforms rt \<longleftrightarrow>
     (\<forall>x. 0 < x \<longrightarrow>
        (\<exists>v. Math_log10 rt (Fin x) = Fin v \<and>
             (\<forall>k. 10 powi k * (1 + 1 / 2 ^ 32) \<le> x \<longrightarrow> of_int k \<le> v) \<and>
             (\<forall>k. x * (1 + 1 / 2 ^ 32) \<le> 10 powi k \<longrightarrow> v < of_int k))) \<and>
     Math_log10 rt (Fin 1) = Fin 0 \<and>
     (\<forall>a. nonneg (pow10 rt a) \<or> pow10 rt a = NaN) \<and>
     (\<forall>k. 0 \<le> k \<and> k \<le> 22 \<longrightarrow> pow10 rt (Fin (of_int k)) = Fin (10 powi k)) \<and>
     (\<forall>k. - 308 \<le> k \<and> k \<le> 308 \<longrightarrow>
        (\<exists>p. pow10 rt (Fin (of_int k)) = Fin p \<and> 10 powi k / 2 \<le> p \<and> p \<le> 2 * 10 powi k))"

text \<open>
  One runtime that conforms, for the evaluation of the source on concrete inputs: its
  logarithm is the exact one rounded down to an integer, and its power is the exact one
  rounded to the nearest binary64 value. An engine may differ from it where \<open>conforms\<close>
  leaves room.
\<close>

fun reference_log10 :: "number \<Rightarrow> number" where
  "reference_log10 (Fin x) =
     (if 0 < x then Fin (of_int (ilog 10 x)) else if x = 0 then NInf else NaN)"
| "reference_log10 PInf = PInf"
| "reference_log10 _ = NaN"

fun reference_pow10 :: "number \<Rightarrow> number" where
  "reference_pow10 (Fin k) =
     (if of_int \<lfloor>k\<rfloor> = k then fl (10 powi \<lfloor>k\<rfloor>) else fl (10 powr k))"
| "reference_pow10 PInf = PInf"
| "reference_pow10 NInf = Fin 0"
| "reference_pow10 NaN = NaN"

definition reference :: runtime where
  "reference = \<lparr>Math_log10 = reference_log10, pow10 = reference_pow10\<rparr>"

text \<open>
  A second runtime: the reference runtime, except for three values that it takes as V8
  returns them, \<^verbatim>\<open>Math.log10(99.99999999999999) = 2\<close>,
  \<^verbatim>\<open>Math.log10(0.000001) = -6\<close> and \<^verbatim>\<open>10 ** -4 = 0.00009999999999999999\<close>.
\<close>

definition observed :: runtime where
  "observed =
     \<lparr>Math_log10 =
        (\<lambda>a. if a = Fin (7036874417766399 / 70368744177664) then Fin 2
             else if a = Fin (4722366482869645 / 4722366482869645213696) then Fin (- 6)
             else reference_log10 a),
      pow10 =
        (\<lambda>a. if a = Fin (- 4) then Fin (1844674407370955 / 18446744073709551616)
             else reference_pow10 a)\<rparr>"

text \<open>A call's integer argument \<^verbatim>\<open>tickCount\<close>, as the number it is.\<close>

definition num :: "int \<Rightarrow> number" where
  "num n = fl (of_int n)"

section \<open>Arithmetic helpers (\<^verbatim>\<open>util/arithmetic.ts\<close>)\<close>

definition getDigitCount :: "runtime \<Rightarrow> number \<Rightarrow> number" where
  "getDigitCount rt v =
     (if num_eq v (Fin 0) then Fin 1
      else num_add (Math_floor (Math_log10 rt (Math_abs v))) (Fin 1))"

text \<open>
  The loop of \<^verbatim>\<open>rangeStep\<close>, with its variables \<^verbatim>\<open>num\<close>, \<^verbatim>\<open>i\<close> and \<^verbatim>\<open>result\<close>
  as arguments.
\<close>

function rangeStep_loop :: "number \<Rightarrow> number \<Rightarrow> number \<Rightarrow> nat \<Rightarrow> number list \<Rightarrow> number list" where
  "rangeStep_loop n end step i result =
     (if num_less n end \<and> i < 100000
      then rangeStep_loop (num_add n step) end step (i + 1) (result @ [n])
      else result)"
  by pat_completeness auto
termination
  by (relation "measure (\<lambda>(n, e, s, i, r). 100000 - i)") auto

declare rangeStep_loop.simps [simp del]

definition rangeStep :: "number \<Rightarrow> number \<Rightarrow> number \<Rightarrow> number list" where
  "rangeStep start end step = rangeStep_loop start end step 0 []"

text \<open>
  The sequence \<^verbatim>\<open>start, start+step, start+step+step, ...\<close> that the loop runs through:
  \<open>progression start step k\<close> is \<open>start\<close> with \<open>step\<close> added \<open>k\<close> times.
\<close>

primrec progression :: "number \<Rightarrow> number \<Rightarrow> nat \<Rightarrow> number" where
  "progression start step 0 = start"
| "progression start step (Suc k) = num_add (progression start step k) step"

text \<open>
  Modelled from the spec: \<^verbatim>\<open>range\<close> of \<^verbatim>\<open>util/utils\<close>, which the source imports
  and which is not among the source files. \<^verbatim>\<open>range(begin, end)\<close> is the list of the
  integers from \<^verbatim>\<open>begin\<close> up to, not including, \<^verbatim>\<open>end\<close> (the spec generates
  \<^verbatim>\<open>tickCount\<close> ticks from \<^verbatim>\<open>range(0, tickCount)\<close>).
\<close>

definition range_int :: "int \<Rightarrow> int \<Rightarrow> number list" where
  "range_int begin end = map num [begin..end - 1]"

section \<open>Tick values (\<^verbatim>\<open>getNiceTickValues.ts\<close>)\<close>

definition getValidInterval :: "number \<times> number \<Rightarrow> number \<times> number" where
  "getValidInterval d =
     (case d of (mn, mx) \<Rightarrow> if num_gt mn mx then (mx, mn) else (mn, mx))"

definition getFormatStep :: "runtime \<Rightarrow> number \<Rightarrow> bool \<Rightarrow> number \<Rightarrow> number" where
  "getFormatStep rt roughStep allowDecimals correctionFactor =
     (if num_le roughStep (Fin 0) \<or> \<not> isFinite roughStep then Fin 0
      else
        let digitCount = getDigitCount rt roughStep;
            pow = pow10 rt (num_sub digitCount (Fin 1));
            stepRatio = num_div roughStep pow;
            stepRatioScale = (if \<not> num_eq digitCount (Fin 1) then fl (5 / 100) else fl (1 / 10));
            stepRatioAmend = num_add (Math_ceil (num_div stepRatio stepRatioScale)) correctionFactor;
            niceStep = num_mul (num_mul stepRatioAmend stepRatioScale) pow
        in if \<not> allowDecimals then Math_ceil niceStep else niceStep)"

definition getTickOfSingleValue :: "runtime \<Rightarrow> number \<Rightarrow> int \<Rightarrow> bool \<Rightarrow> number list" where
  "getTickOfSingleValue rt v tickCount allowDecimals =
     (if tickCount \<le> 1 then [v]
      else
        let (step, middle) =
              (if allowDecimals \<and> num_less (Math_abs v) (Fin 1) \<and> \<not> num_eq v (Fin 0)
               then let step = pow10 rt (num_sub (getDigitCount rt v) (Fin 1))
                    in (step, num_mul (Math_floor (num_div v step)) step)
               else if \<not> allowDecimals \<or> isInteger v then (Fin 1, Math_floor v)
               else if num_eq v (Fin 0)
               then (Fin 1, Math_floor (num_div (num_sub (num tickCount) (Fin 1)) (Fin 2)))
               else (Fin 1, v));
            middleIndex = Math_floor (num_div (num_sub (num tickCount) (Fin 1)) (Fin 2))
        in map (\<lambda>n. num_add middle (num_mul (num_sub n middleIndex) step)) (range_int 0 tickCount))"

record step_result =
  step :: number
  tickMin :: number
  tickMax :: number

text \<open>
  \<^verbatim>\<open>calculateStep\<close> calls itself with no bound on the depth: a call that never returns
  has the value \<open>None\<close>.
\<close>

partial_function (option) calculateStep ::
  "runtime \<Rightarrow> number \<Rightarrow> number \<Rightarrow> int \<Rightarrow> bool \<Rightarrow> number \<Rightarrow> step_result option" where
  "calculateStep rt mn mx tickCount allowDecimals correctionFactor =
     (if \<not> isFinite (num_div (num_sub mx mn) (num_sub (num tickCount) (Fin 1)))
      then Some \<lparr>step = Fin 0, tickMin = Fin 0, tickMax = Fin 0\<rparr>
      else
        let step = getFormatStep rt (num_div (num_sub mx mn) (num_sub (num tickCount) (Fin 1)))
                     allowDecimals correctionFactor;
            middle =
              (if num_le mn (Fin 0) \<and> num_ge mx (Fin 0) then Fin 0
               else let middle = num_div (num_add mn mx) (Fin 2)
                    in num_sub middle (num_mod (num_add (num_mod middle step) step) step));
            belowCount = Math_ceil (num_div (num_sub middle mn) step);
            upCount = Math_ceil (num_div (num_sub mx middle) step);
            scaleCount = num_add (num_add belowCount upCount) (Fin 1)
        in if num_gt scaleCount (num tickCount)
           then calculateStep rt mn mx tickCount allowDecimals (num_add correctionFactor (Fin 1))
           else
             let (belowCount, upCount) =
                   (if num_less scaleCount (num tickCount)
                    then if num_gt mx (Fin 0)
                         then (belowCount, num_add upCount (num_sub (num tickCount) scaleCount))
                         else (num_add belowCount (num_sub (num tickCount) scaleCount), upCount)
                    else (belowCount, upCount))
             in Some \<lparr>step = step,
                       tickMin = num_sub middle (num_mul belowCount step),
                       tickMax = num_add middle (num_mul upCount step)\<rparr>)"

definition getNiceTickValues ::
  "runtime \<Rightarrow> number \<times> number \<Rightarrow> int \<Rightarrow> bool \<Rightarrow> number list option" where
  "getNiceTickValues rt d tickCount allowDecimals =
     (case d of (mn, mx) \<Rightarrow>
        let count = max tickCount 2;
            (cormin, cormax) = getValidInterval (mn, mx)
        in if num_eq cormin NInf \<or> num_eq cormax PInf
           then
             let values =
                   (if num_eq cormax PInf
                    then cormin # map (\<lambda>_. PInf) (range_int 0 (tickCount - 1))
                    else map (\<lambda>_. NInf) (range_int 0 (tickCount - 1)) @ [cormax])
             in Some (if num_gt mn mx then rev values else values)
           else if num_eq cormin cormax
           then Some (getTickOfSingleValue rt cormin tickCount allowDecimals)
           else
             case calculateStep rt cormin cormax count allowDecimals (Fin 0) of
               None \<Rightarrow> None
             | Some r \<Rightarrow>
                 let epsilon = num_mul (fl (1 / 10)) (step r);
                     values = rangeStep (tickMin r) (num_add (tickMax r) epsilon) (step r)
                 in Some (if num_gt mn mx then rev values else values))"


section \<open>Rounding is monotone\<close>

lemma floorlog_pos: "0 < n \<Longrightarrow> 1 < b \<Longrightarrow> 0 < floorlog b n"
  by (simp add: floorlog_def)

lemma ilog_bounds:
  fixes b :: nat and x :: real
  assumes b: "1 < b" and x: "0 < x"
  shows "real b powi (ilog b x) \<le> x" and "x < real b powi (ilog b x + 1)"
proof -
  have "real b powi (ilog b x) \<le> x \<and> x < real b powi (ilog b x + 1)"
  proof (cases "1 \<le> x")
    case True
    define n where "n = nat \<lfloor>x\<rfloor>"
    define k where "k = floorlog b n"
    have n: "0 < n" using True by (simp add: n_def)
    have k: "0 < k" using n b by (simp add: k_def floorlog_pos)
    have bnd: "b ^ (k - 1) \<le> n" "n < b ^ k"
      using floorlog_bounds [OF n b] by (simp_all add: k_def)
    have il: "ilog b x = int (k - 1)"
      using True k by (simp add: ilog_def n_def k_def)
    have nx: "real n \<le> x" "x < real n + 1"
      using True by (simp_all add: n_def; linarith)+
    have "real b ^ (k - 1) \<le> real n" using bnd(1) by (metis of_nat_le_iff of_nat_power)
    then have l: "real b ^ (k - 1) \<le> x" using nx(1) by linarith
    have "real (Suc n) \<le> real b ^ k" using bnd(2)
      by (metis Suc_leI of_nat_le_iff of_nat_power)
    then have u: "x < real b ^ k" using nx(2) by simp
    have "ilog b x + 1 = int k" using k il by simp
    then have e2: "real b powi (ilog b x + 1) = real b ^ k" by (simp only: power_int_of_nat)
    have e1: "real b powi (ilog b x) = real b ^ (k - 1)" by (simp only: il power_int_of_nat)
    show ?thesis using l u unfolding e1 e2 by blast
  next
    case False
    define n where "n = nat (\<lceil>1 / x\<rceil> - 1)"
    define k where "k = floorlog b n"
    have y: "1 < 1 / x" using False x by simp
    then have c: "2 \<le> \<lceil>1 / x\<rceil>" by linarith
    have n: "0 < n" using c by (simp add: n_def)
    have k: "0 < k" using n b by (simp add: k_def floorlog_pos)
    have bnd: "b ^ (k - 1) \<le> n" "n < b ^ k"
      using floorlog_bounds [OF n b] by (simp_all add: k_def)
    have il: "ilog b x = - int k"
      using False by (simp add: ilog_def n_def k_def)
    have rn: "real n = of_int \<lceil>1 / x\<rceil> - 1"
    proof -
      have "0 \<le> \<lceil>1 / x\<rceil> - 1" using c by linarith
      then have "real (nat (\<lceil>1 / x\<rceil> - 1)) = of_int (\<lceil>1 / x\<rceil> - 1)" by (rule of_nat_nat)
      then show ?thesis by (simp add: n_def)
    qed
    have ny: "real n < 1 / x" "1 / x \<le> real n + 1"
      unfolding rn by linarith+
    have "real b ^ (k - 1) \<le> real n" using bnd(1) by (metis of_nat_le_iff of_nat_power)
    then have l: "real b ^ (k - 1) < 1 / x" using ny(1) by linarith
    have "real (Suc n) \<le> real b ^ k" using bnd(2)
      by (metis Suc_leI of_nat_le_iff of_nat_power)
    then have u: "1 / x \<le> real b ^ k" using ny(2) by simp
    have bpos: "0 < real b" using b by simp
    have bk: "0 < real b ^ k" "0 < real b ^ (k - 1)" using bpos by simp_all
    have 1: "1 / real b ^ k \<le> x"
      using u x bk by (simp add: field_simps)
    have 2: "x < 1 / real b ^ (k - 1)"
      using l x bk by (simp add: field_simps)
    have e1: "real b powi (- int k) = 1 / real b ^ k"
      by (simp only: power_int_minus power_int_of_nat inverse_eq_divide)
    have "- int k + 1 = - int (k - 1)" using k by simp
    then have "real b powi (- int k + 1) = real b powi (- int (k - 1))" by (rule arg_cong)
    also have "\<dots> = 1 / real b ^ (k - 1)"
      by (simp only: power_int_minus power_int_of_nat inverse_eq_divide)
    finally have e2: "real b powi (- int k + 1) = 1 / real b ^ (k - 1)" .
    show ?thesis using 1 2 unfolding il e1 e2 by blast
  qed
  then show "real b powi (ilog b x) \<le> x" and "x < real b powi (ilog b x + 1)" by simp_all
qed

lemma round_even_of_int: "round_even (of_int n) = n"
  by (simp add: round_even_def)

lemma round_even_mono: "x \<le> y \<Longrightarrow> round_even x \<le> round_even y"
proof -
  assume xy: "x \<le> y"
  have fg: "\<lfloor>x\<rfloor> \<le> \<lfloor>y\<rfloor>" using xy by (rule floor_mono)
  have lx: "round_even x \<le> \<lfloor>x\<rfloor> + 1" by (simp add: round_even_def Let_def)
  have ly: "\<lfloor>y\<rfloor> \<le> round_even y" by (simp add: round_even_def Let_def)
  show ?thesis
  proof (cases "\<lfloor>x\<rfloor> < \<lfloor>y\<rfloor>")
    case True
    then show ?thesis using lx ly by linarith
  next
    case False
    then have eq: "\<lfloor>x\<rfloor> = \<lfloor>y\<rfloor>" using fg by simp
    have "x - of_int \<lfloor>y\<rfloor> \<le> y - of_int \<lfloor>y\<rfloor>" using xy by simp
    then show ?thesis
      by (auto simp add: round_even_def Let_def eq)
  qed
qed

lemma round_even_neg: "round_even (- x) = - round_even x"
proof (cases "of_int \<lfloor>x\<rfloor> = x")
  case True
  then obtain n where "x = of_int n" by metis
  then show ?thesis
    by (simp add: round_even_of_int flip: of_int_minus)
next
  case False
  then have c: "\<lceil>x\<rceil> = \<lfloor>x\<rfloor> + 1"
    by (metis ceiling_altdef)
  have f: "\<lfloor>- x\<rfloor> = - \<lfloor>x\<rfloor> - 1"
    using c by (simp add: floor_minus)
  show ?thesis
    by (auto simp add: round_even_def Let_def f)
qed

lemma quantum_pos: "0 < quantum x"
  by (simp add: quantum_def)

lemma quantum_neg: "quantum (- x) = quantum x"
  by (simp add: quantum_def bexp_def)

lemma rnd_neg: "rnd (- x) = - rnd x"
  by (simp add: rnd_def quantum_neg round_even_neg)

lemma rnd_0: "rnd 0 = 0"
  by (simp add: rnd_def round_even_def)

lemma quantum_bexp: "quantum x = 2 powi (bexp x - 52)"
  by (simp add: quantum_def)

lemma ilog2_bounds:
  assumes "0 < x"
  shows "2 powi (ilog 2 x) \<le> x" and "x < 2 powi (ilog 2 x + 1)"
  using ilog_bounds [of 2 x] assms by simp_all

lemma pow2_less_cancel:
  assumes "(2::real) powi m < 2 powi n"
  shows "m < n"
proof (rule ccontr)
  assume "\<not> m < n"
  then have "n \<le> m" by simp
  then have "(2::real) powi n \<le> 2 powi m" by (rule power_int_increasing) simp
  then show False using assms by simp
qed

lemma ilog2_mono:
  assumes "0 < x" and "x \<le> y"
  shows "ilog 2 x \<le> ilog 2 y"
proof -
  have "(2::real) powi (ilog 2 x) < 2 powi (ilog 2 y + 1)"
    using ilog2_bounds(1) [of x] ilog2_bounds(2) [of y] assms by linarith
  then have "ilog 2 x < ilog 2 y + 1"
    by (rule pow2_less_cancel)
  then show ?thesis by simp
qed

lemma bexp_upper:
  assumes "0 < x"
  shows "x < 2 powi (bexp x + 1)"
proof -
  have "x < 2 powi (ilog 2 x + 1)" using assms by (rule ilog2_bounds)
  also have "\<dots> \<le> 2 powi (bexp x + 1)"
    using assms by (intro power_int_increasing) (simp_all add: bexp_def)
  finally show ?thesis .
qed

lemma bexp_lower:
  assumes "0 < x" and "- 1022 < bexp x"
  shows "2 powi (bexp x) \<le> x"
proof -
  have "bexp x = ilog 2 x" using assms by (simp add: bexp_def max_def split: if_splits)
  then show ?thesis using ilog2_bounds(1) [OF assms(1)] by simp
qed

lemma bexp_mono:
  assumes "0 < x" and "x \<le> y"
  shows "bexp x \<le> bexp y"
  using ilog2_mono [OF assms] assms by (simp add: bexp_def max_def)

lemma rnd_nonneg:
  assumes "0 \<le> x"
  shows "0 \<le> rnd x"
proof -
  have "0 \<le> x / quantum x" using assms quantum_pos [of x] by simp
  then have "round_even 0 \<le> round_even (x / quantum x)" by (rule round_even_mono)
  then have "0 \<le> round_even (x / quantum x)" by (simp add: round_even_def)
  then show ?thesis using quantum_pos [of x] by (simp add: rnd_def)
qed

lemma pow2_53: "real_of_int (2 ^ 53) = 2 powi 53" "real_of_int (2 ^ 52) = 2 powi 52"
  by simp_all

lemma rnd_upper:
  assumes "0 < x"
  shows "rnd x \<le> 2 powi (bexp x + 1)"
proof -
  have q: "0 < quantum x" by (rule quantum_pos)
  have "(2::real) powi (bexp x + 1) / 2 powi (bexp x - 52) = 2 powi ((bexp x + 1) - (bexp x - 52))"
    by (rule power_int_diff [symmetric]) simp
  then have e: "2 powi (bexp x + 1) / quantum x = real_of_int (2 ^ 53)"
    unfolding pow2_53 quantum_bexp by simp
  have "x / quantum x < 2 powi (bexp x + 1) / quantum x"
    using bexp_upper [OF assms] q by (rule divide_strict_right_mono)
  then have "x / quantum x \<le> real_of_int (2 ^ 53)" unfolding e by simp
  then have "round_even (x / quantum x) \<le> round_even (real_of_int (2 ^ 53))"
    by (rule round_even_mono)
  then have "round_even (x / quantum x) \<le> 2 ^ 53"
    by (simp only: round_even_of_int)
  then have "real_of_int (round_even (x / quantum x)) \<le> real_of_int (2 ^ 53)"
    by (rule of_int_le_iff [THEN iffD2])
  then have "real_of_int (round_even (x / quantum x)) * quantum x \<le> real_of_int (2 ^ 53) * quantum x"
    using q by (simp only: mult_le_cancel_right_pos)
  then have "rnd x \<le> 2 powi (bexp x + 1) / quantum x * quantum x"
    unfolding e rnd_def .
  then show ?thesis using q by simp
qed

lemma rnd_lower:
  assumes "0 < x" and "- 1022 < bexp x"
  shows "2 powi (bexp x) \<le> rnd x"
proof -
  have q: "0 < quantum x" by (rule quantum_pos)
  have "(2::real) powi (bexp x) / 2 powi (bexp x - 52) = 2 powi (bexp x - (bexp x - 52))"
    by (rule power_int_diff [symmetric]) simp
  then have e: "2 powi (bexp x) / quantum x = real_of_int (2 ^ 52)"
    unfolding pow2_53 quantum_bexp by simp
  have "2 powi (bexp x) / quantum x \<le> x / quantum x"
    using bexp_lower [OF assms] q by (simp only: divide_le_cancel) simp
  then have "real_of_int (2 ^ 52) \<le> x / quantum x" unfolding e .
  then have "round_even (real_of_int (2 ^ 52)) \<le> round_even (x / quantum x)"
    by (rule round_even_mono)
  then have "2 ^ 52 \<le> round_even (x / quantum x)"
    by (simp only: round_even_of_int)
  then have "real_of_int (2 ^ 52) \<le> real_of_int (round_even (x / quantum x))"
    by (rule of_int_le_iff [THEN iffD2])
  then have "real_of_int (2 ^ 52) * quantum x \<le> real_of_int (round_even (x / quantum x)) * quantum x"
    using q by (simp only: mult_le_cancel_right_pos)
  then have "2 powi (bexp x) / quantum x * quantum x \<le> rnd x"
    unfolding e rnd_def .
  then show ?thesis using q by simp
qed

lemma rnd_mono_pos:
  assumes x: "0 < x" and xy: "x \<le> y"
  shows "rnd x \<le> rnd y"
proof (cases "bexp x = bexp y")
  case True
  then have q: "quantum y = quantum x" by (simp add: quantum_bexp)
  have "x / quantum x \<le> y / quantum x"
    using xy quantum_pos [of x] by (simp add: divide_right_mono)
  then have "round_even (x / quantum x) \<le> round_even (y / quantum x)"
    by (rule round_even_mono)
  then have "real_of_int (round_even (x / quantum x)) * quantum x
      \<le> real_of_int (round_even (y / quantum x)) * quantum x"
    using quantum_pos [of x] by (simp only: mult_le_cancel_right_pos of_int_le_iff)
  then show ?thesis by (simp add: rnd_def q)
next
  case False
  have y: "0 < y" using x xy by simp
  have lt: "bexp x < bexp y" using bexp_mono [OF x xy] False by simp
  have "- 1022 \<le> bexp x" by (simp add: bexp_def)
  then have n: "- 1022 < bexp y" using lt by simp
  have "rnd x \<le> 2 powi (bexp x + 1)" using x by (rule rnd_upper)
  also have "\<dots> \<le> 2 powi (bexp y)"
    using lt by (intro power_int_increasing) simp_all
  also have "\<dots> \<le> rnd y" using y n by (rule rnd_lower)
  finally show ?thesis .
qed

lemma rnd_mono:
  assumes "x \<le> y"
  shows "rnd x \<le> rnd y"
proof -
  consider "0 < x" | "x \<le> 0" "0 \<le> y" | "y < 0" by linarith
  then show ?thesis
  proof cases
    case 1
    then show ?thesis using assms by (rule rnd_mono_pos)
  next
    case 2
    have "0 \<le> rnd (- x)" using 2(1) by (intro rnd_nonneg) simp
    then have "rnd x \<le> 0" by (simp add: rnd_neg)
    also have "0 \<le> rnd y" using 2(2) by (rule rnd_nonneg)
    finally show ?thesis .
  next
    case 3
    then have "0 < - y" "- y \<le> - x" using assms by simp_all
    then have "rnd (- y) \<le> rnd (- x)" by (rule rnd_mono_pos)
    then show ?thesis by (simp add: rnd_neg)
  qed
qed

lemma rnd_nonpos: "x \<le> 0 \<Longrightarrow> rnd x \<le> 0"
  using rnd_mono [of x 0] by (simp add: rnd_0)

lemma fl_not_NaN [simp]: "fl x \<noteq> NaN"
  by (simp add: fl_def)

lemma num_le_refl: "a \<noteq> NaN \<Longrightarrow> num_le a a"
  by (simp add: num_le_def num_eq_def)

lemma num_le_Fin [simp]: "num_le (Fin a) (Fin b) \<longleftrightarrow> a \<le> b"
  by (auto simp add: num_le_def num_eq_def)

lemma num_le_PInf [simp]: "num_le a PInf \<longleftrightarrow> a \<noteq> NaN"
  by (cases a) (simp_all add: num_le_def num_eq_def)

lemma num_le_NInf [simp]: "num_le NInf a \<longleftrightarrow> a \<noteq> NaN"
  by (cases a) (simp_all add: num_le_def num_eq_def)

lemma fl_mono:
  assumes "x \<le> y"
  shows "num_le (fl x) (fl y)"
proof -
  have r: "rnd x \<le> rnd y" using assms by (rule rnd_mono)
  have p: "2 powi 1024 \<le> \<bar>rnd x\<bar> \<Longrightarrow> 0 < x \<Longrightarrow> 2 powi 1024 \<le> \<bar>rnd y\<bar> \<and> 0 < y"
    using r assms rnd_nonneg [of x] by simp
  have n: "2 powi 1024 \<le> \<bar>rnd y\<bar> \<Longrightarrow> \<not> 0 < y \<Longrightarrow> 2 powi 1024 \<le> \<bar>rnd x\<bar> \<and> \<not> 0 < x"
    using r assms rnd_nonpos [of y] by simp
  show ?thesis
    using r p n by (auto simp add: fl_def)
qed

section \<open>Exact roundings and the rounding error\<close>

lemmas fl_eval = fl_def rnd_def quantum_def bexp_def ilog_def round_even_def Let_def compute_floorlog

lemma fl_0: "fl 0 = Fin 0"
  by (simp add: fl_def rnd_0)

lemma nonneg_fl: "0 \<le> x \<Longrightarrow> nonneg (fl x)"
  using fl_mono [of 0 x] by (cases "fl x") (auto simp add: fl_0 num_le_def num_eq_def)







lemma fl_between:
  assumes "a \<le> x" and "x \<le> b" and a: "fl a = Fin a'" and b: "fl b = Fin b'"
  obtains y where "fl x = Fin y" and "a' \<le> y" and "y \<le> b'"
proof -
  have 1: "num_le (Fin a') (fl x)" using fl_mono [OF assms(1)] by (simp add: a)
  have 2: "num_le (fl x) (Fin b')" using fl_mono [OF assms(2)] by (simp add: b)
  show ?thesis
  proof (cases "fl x")
    case (Fin y)
    then show ?thesis using 1 2 that by simp
  next
    case PInf
    then show ?thesis using 2 by (simp add: num_le_def num_eq_def)
  next
    case NInf
    then show ?thesis using 1 by (simp add: num_le_def num_eq_def)
  next
    case NaN
    then show ?thesis by simp
  qed
qed





lemma powi_less_cancel:
  fixes b :: real
  assumes "1 < b" and "b powi m < b powi n"
  shows "m < n"
proof (rule ccontr)
  assume "\<not> m < n"
  then have "n \<le> m" by simp
  then have "b powi n \<le> b powi m" using assms(1) by (intro power_int_increasing) simp_all
  then show False using assms(2) by simp
qed


lemma fl_dyadic:
  assumes m: "\<bar>m\<bar> < 2 ^ 53" and e: "- 1074 \<le> e" "e \<le> 971"
  shows "fl (of_int m * 2 powi e) = Fin (of_int m * 2 powi e)"
proof (cases "m = 0")
  case True
  then show ?thesis by (simp add: fl_0)
next
  case False
  define x :: real where "x = of_int m * 2 powi e"
  have ax: "\<bar>x\<bar> = of_int \<bar>m\<bar> * 2 powi e" by (simp add: x_def abs_mult)
  have pos: "0 < \<bar>x\<bar>" using False by (simp add: x_def)
  have "real_of_int \<bar>m\<bar> < real_of_int (2 ^ 53)" using m by (rule of_int_less_iff [THEN iffD2])
  then have "real_of_int \<bar>m\<bar> < 2 powi 53" by simp
  then have "\<bar>x\<bar> < 2 powi 53 * 2 powi e" unfolding ax by (simp only: mult_strict_right_mono zero_less_power_int zero_less_numeral)
  also have "(2::real) powi 53 * 2 powi e = 2 powi (53 + e)"
    by (rule power_int_add [symmetric]) simp
  finally have ub: "\<bar>x\<bar> < 2 powi (53 + e)" .
  have "(2::real) powi (ilog 2 \<bar>x\<bar>) < 2 powi (53 + e)"
    using ilog2_bounds(1) [OF pos] ub by linarith
  then have "ilog 2 \<bar>x\<bar> < 53 + e" by (rule pow2_less_cancel)
  then have be: "bexp x - 52 \<le> e" using e(1) by (simp add: bexp_def)
  define k where "k = nat (e - (bexp x - 52))"
  define q where "q = quantum x"
  have ke: "e = (bexp x - 52) + int k" using be by (simp add: k_def)
  have "(2::real) powi e = 2 powi (bexp x - 52) * 2 powi (int k)"
    unfolding ke by (rule power_int_add) simp
  then have pe: "(2::real) powi e = q * 2 ^ k" by (simp add: q_def quantum_def)
  have q: "0 < q" unfolding q_def by (rule quantum_pos)
  have xq: "x = real_of_int (m * 2 ^ k) * q" by (simp add: x_def pe)
  then have d: "x / q = real_of_int (m * 2 ^ k)" using q by simp
  have "rnd x = real_of_int (m * 2 ^ k) * q"
    unfolding rnd_def q_def [symmetric] d round_even_of_int ..
  then have r: "rnd x = x" using xq by simp
  have "(2::real) powi (53 + e) \<le> 2 powi 1024"
    using e(2) by (intro power_int_increasing) simp_all
  then have "\<bar>x\<bar> < 2 powi 1024" using ub by linarith
  then show ?thesis unfolding x_def [symmetric] fl_def r by simp
qed

lemma fl_of_int:
  assumes "\<bar>n\<bar> < 2 ^ 53"
  shows "fl (of_int n) = Fin (of_int n)"
  using fl_dyadic [OF assms, of 0] by simp


lemma round_even_lower: "x - 1 / 2 \<le> real_of_int (round_even x)"
  unfolding round_even_def Let_def by (simp; linarith)

lemma rnd_lower_quantum: "x - quantum x / 2 \<le> rnd x"
proof -
  have q: "0 < quantum x" by (rule quantum_pos)
  have a: "(x / quantum x - 1 / 2) * quantum x = x - quantum x / 2"
    using q by (simp add: field_simps)
  have "(x / quantum x - 1 / 2) * quantum x \<le> real_of_int (round_even (x / quantum x)) * quantum x"
    using round_even_lower [of "x / quantum x"] q by (simp only: mult_le_cancel_right_pos)
  then show ?thesis unfolding a rnd_def .
qed

lemma quantum_upper:
  assumes "0 < x"
  shows "quantum x \<le> max x (2 powi (- 1022)) * 2 powi (- 52)"
proof -
  have "(2::real) powi (bexp x) \<le> max x (2 powi (- 1022))"
  proof (cases "- 1022 < bexp x")
    case True
    then show ?thesis using bexp_lower [OF assms True] by simp
  next
    case False
    moreover have "- 1022 \<le> bexp x" by (simp add: bexp_def)
    ultimately have "bexp x = - 1022" by simp
    then show ?thesis by simp
  qed
  moreover have "quantum x = 2 powi (bexp x) * 2 powi (- 52)"
    unfolding quantum_def by (rule power_int_diff [unfolded divide_inverse power_int_minus [symmetric]]) simp
  ultimately show ?thesis by simp
qed















lemma round_even_upper: "real_of_int (round_even x) \<le> x + 1 / 2"
  unfolding round_even_def Let_def by (simp; linarith)

lemma rnd_upper_quantum: "rnd x \<le> x + quantum x / 2"
proof -
  have q: "0 < quantum x" by (rule quantum_pos)
  have a: "(x / quantum x + 1 / 2) * quantum x = x + quantum x / 2"
    using q by (simp add: field_simps)
  have "real_of_int (round_even (x / quantum x)) * quantum x \<le> (x / quantum x + 1 / 2) * quantum x"
    using round_even_upper [of "x / quantum x"] q by (simp only: mult_le_cancel_right_pos)
  then show ?thesis unfolding a rnd_def .
qed

lemma fl_near:
  assumes lo: "2 powi (- 1024) \<le> t" and hi: "t \<le> 10 powi 308"
  obtains p where "fl t = Fin p" and "t / 2 \<le> p" and "p \<le> 2 * t"
proof -
  have t: "0 < t" using lo by (rule less_le_trans [rotated]) simp
  have "(2::real) powi (- 1022) = 4 * 2 powi (- 1024)" by simp
  then have "2 powi (- 1022) \<le> 4 * t" using lo by linarith
  then have "max t (2 powi (- 1022)) \<le> 4 * t" using t by simp
  then have "max t (2 powi (- 1022)) * 2 powi (- 52) \<le> 4 * t * 2 powi (- 52)"
    by (rule mult_right_mono) simp
  also have "\<dots> = t / 2 ^ 50" by simp
  finally have "quantum t \<le> t / 2 ^ 50" using quantum_upper [OF t] by linarith
  then have q: "quantum t / 2 \<le> t / 2 ^ 51" by simp
  have l: "t - t / 2 ^ 51 \<le> rnd t" using rnd_lower_quantum [of t] q by linarith
  have u: "rnd t \<le> t + t / 2 ^ 51" using rnd_upper_quantum [of t] q by linarith
  have "t + t / 2 ^ 51 \<le> 10 powi 308 + 10 powi 308 / 2 ^ 51"
    using hi by (intro add_mono divide_right_mono) simp_all
  also have "\<dots> < 2 powi 1024" by simp
  finally have "rnd t < 2 powi 1024" using u by linarith
  moreover have "0 \<le> rnd t" using t by (intro rnd_nonneg) simp
  ultimately have f: "fl t = Fin (rnd t)" by (simp add: fl_def)
  have s: "t / 2 ^ 51 \<le> t / 2" using t by (intro divide_left_mono) simp_all
  have 1: "t / 2 \<le> rnd t" using l s by linarith
  have 2: "rnd t \<le> 2 * t" using u s t by linarith
  show ?thesis using f 1 2 by (rule that)
qed

section \<open>Conforming runtimes\<close>

lemma conforms_log10:
  assumes "conforms rt" and "0 < x"
  shows "\<exists>v. Math_log10 rt (Fin x) = Fin v \<and>
      (\<forall>k. 10 powi k * (1 + 1 / 2 ^ 32) \<le> x \<longrightarrow> of_int k \<le> v) \<and>
      (\<forall>k. x * (1 + 1 / 2 ^ 32) \<le> 10 powi k \<longrightarrow> v < of_int k)"
  using assms unfolding conforms_def by blast

lemma conforms_log10_1: "conforms rt \<Longrightarrow> Math_log10 rt (Fin 1) = Fin 0"
  unfolding conforms_def by blast

lemma conforms_pow10_sign: "conforms rt \<Longrightarrow> nonneg (pow10 rt a) \<or> pow10 rt a = NaN"
  unfolding conforms_def by blast

lemma conforms_pow10_exact:
  "conforms rt \<Longrightarrow> 0 \<le> k \<Longrightarrow> k \<le> 22 \<Longrightarrow> pow10 rt (Fin (of_int k)) = Fin (10 powi k)"
  unfolding conforms_def by blast

lemma conforms_pow10_0: "conforms rt \<Longrightarrow> pow10 rt (Fin 0) = Fin 1"
  using conforms_pow10_exact [of rt 0] by simp

lemma conforms_pow10_1: "conforms rt \<Longrightarrow> pow10 rt (Fin 1) = Fin 10"
  using conforms_pow10_exact [of rt 1] by simp

lemma conforms_pow10_near:
  assumes "conforms rt" and "- 308 \<le> k" and "k \<le> 308"
  obtains p where "pow10 rt (Fin (of_int k)) = Fin p" and "10 powi k / 2 \<le> p"
    and "p \<le> 2 * 10 powi k"
proof -
  have "\<exists>p. pow10 rt (Fin (of_int k)) = Fin p \<and> 10 powi k / 2 \<le> p \<and> p \<le> 2 * 10 powi k"
    using assms unfolding conforms_def by blast
  then show ?thesis using that by blast
qed

text \<open>
  Away from the powers of ten, \<^verbatim>\<open>Math.floor(Math.log10(x))\<close> is the same in every
  conforming runtime.
\<close>

lemma log10_decade:
  assumes c: "conforms rt" and lo: "10 powi k * (1 + 1 / 2 ^ 32) \<le> x"
    and hi: "x * (1 + 1 / 2 ^ 32) \<le> 10 powi (k + 1)"
  shows "Math_floor (Math_log10 rt (Fin x)) = Fin (of_int k)"
proof -
  have "0 < (10::real) powi k * (1 + 1 / 2 ^ 32)" by simp
  then have x: "0 < x" using lo by linarith
  obtain v where v: "Math_log10 rt (Fin x) = Fin v"
    "\<forall>k. 10 powi k * (1 + 1 / 2 ^ 32) \<le> x \<longrightarrow> of_int k \<le> v"
    "\<forall>k. x * (1 + 1 / 2 ^ 32) \<le> 10 powi k \<longrightarrow> v < of_int k"
    using conforms_log10 [OF c x] by blast
  have "of_int k \<le> v" using lo v(2) by blast
  moreover have "v < of_int (k + 1)" using hi v(3) by blast
  ultimately have "\<lfloor>v\<rfloor> = k" by (simp add: floor_eq_iff)
  then show ?thesis by (simp add: v(1))
qed

text \<open>
  \<^verbatim>\<open>getDigitCount\<close> and \<^verbatim>\<open>getFormatStep\<close> on a positive number, from the floor of
  its logarithm.
\<close>

lemma getDigitCount_floor:
  assumes x: "0 < x" and f: "Math_floor (Math_log10 rt (Fin x)) = Fin (of_int k)"
    and k: "- 400 \<le> k" "k \<le> 400"
  shows "getDigitCount rt (Fin x) = Fin (of_int (k + 1))"
    and "num_sub (getDigitCount rt (Fin x)) (Fin 1) = Fin (of_int k)"
proof -
  have a: "Math_abs (Fin x) = Fin x" using x by simp
  have "\<bar>k + 1\<bar> < 2 ^ 53" using k by simp
  then have 1: "fl (of_int (k + 1)) = Fin (of_int (k + 1))" by (rule fl_of_int)
  have "\<bar>k\<bar> < 2 ^ 53" using k by simp
  then have 2: "fl (of_int k) = Fin (of_int k)" by (rule fl_of_int)
  show d: "getDigitCount rt (Fin x) = Fin (of_int (k + 1))"
    unfolding getDigitCount_def a f using x 1 by (simp add: num_eq_def)
  show "num_sub (getDigitCount rt (Fin x)) (Fin 1) = Fin (of_int k)"
    unfolding d using 2 by (simp add: num_sub_def)
qed

lemma getFormatStep_floor:
  assumes x: "0 < x" and f: "Math_floor (Math_log10 rt (Fin x)) = Fin (of_int k)"
    and k: "- 400 \<le> k" "k \<le> 400"
  shows "getFormatStep rt (Fin x) d cf =
      (let pow = pow10 rt (Fin (of_int k));
           s = (if k \<noteq> 0 then fl (5 / 100) else fl (1 / 10));
           n = num_mul (num_mul (num_add (Math_ceil (num_div (num_div (Fin x) pow) s)) cf) s) pow
       in if \<not> d then Math_ceil n else n)"
proof -
  note g = getDigitCount_floor [OF x f k]
  have e: "num_eq (Fin (of_int (k + 1))) (Fin 1) \<longleftrightarrow> k = 0"
    by (simp add: num_eq_def)
  show ?thesis
    using x
    apply (simp only: getFormatStep_def Let_def)
    apply (simp only: g(2))
    apply (simp only: g(1) e)
    apply simp
    done
qed

text \<open>The reference runtime conforms.\<close>

lemma pow10_reference_int: "pow10 reference (Fin (of_int k)) = fl (10 powi k)"
  by (simp add: reference_def)

lemma conforms_reference: "conforms reference"
  unfolding conforms_def
proof (intro conjI allI impI)
  fix x :: real assume x: "0 < x"
  note b = ilog_bounds [of 10 x, simplified, OF x]
  have l: "of_int k \<le> real_of_int (ilog 10 x)" if "10 powi k * (1 + 1 / 2 ^ 32) \<le> x" for k
  proof -
    have "(10::real) powi k \<le> 10 powi k * (1 + 1 / 2 ^ 32)" by simp
    then have "(10::real) powi k < 10 powi (ilog 10 x + 1)" using that b(2) by linarith
    then have "k < ilog 10 x + 1" by (rule powi_less_cancel [rotated]) simp
    then show ?thesis by simp
  qed
  have u: "real_of_int (ilog 10 x) < of_int k" if "x * (1 + 1 / 2 ^ 32) \<le> 10 powi k" for k
  proof -
    have "x < x * (1 + 1 / 2 ^ 32)" using x by simp
    then have "(10::real) powi (ilog 10 x) < 10 powi k" using that b(1) by linarith
    then have "ilog 10 x < k" by (rule powi_less_cancel [rotated]) simp
    then show ?thesis by simp
  qed
  have "Math_log10 reference (Fin x) = Fin (of_int (ilog 10 x))"
    using x by (simp add: reference_def)
  then show "\<exists>v. Math_log10 reference (Fin x) = Fin v \<and>
      (\<forall>k. 10 powi k * (1 + 1 / 2 ^ 32) \<le> x \<longrightarrow> of_int k \<le> v) \<and>
      (\<forall>k. x * (1 + 1 / 2 ^ 32) \<le> 10 powi k \<longrightarrow> v < of_int k)"
    using l u by blast
next
  show "Math_log10 reference (Fin 1) = Fin 0"
    by (simp add: reference_def ilog_def compute_floorlog)
next
  fix a show "nonneg (pow10 reference a) \<or> pow10 reference a = NaN"
    by (cases a) (simp_all add: reference_def nonneg_fl)
next
  fix k :: int assume k: "0 \<le> k \<and> k \<le> 22"
  define n where "n = nat k"
  have kn: "k = int n" and n: "n \<le> 22" using k by (auto simp add: n_def)
  have "(5::int) ^ n \<le> 5 ^ 22" using n by (intro power_increasing) simp_all
  then have m: "\<bar>(5::int) ^ n\<bar> < 2 ^ 53" by simp
  have "(10::real) powi k = (5 * 2) ^ n" unfolding kn by (simp only: power_int_of_nat) simp
  also have "\<dots> = real_of_int (5 ^ n) * 2 powi k"
    unfolding kn by (simp only: power_int_of_nat power_mult_distrib) simp
  finally have e: "(10::real) powi k = real_of_int (5 ^ n) * 2 powi k" .
  have "fl (real_of_int (5 ^ n) * 2 powi k) = Fin (real_of_int (5 ^ n) * 2 powi k)"
    using m by (rule fl_dyadic) (use k in simp_all)
  then show "pow10 reference (Fin (of_int k)) = Fin (10 powi k)"
    unfolding pow10_reference_int e .
next
  fix k :: int assume k: "- 308 \<le> k \<and> k \<le> 308"
  have "(2::real) powi (- 1024) \<le> 10 powi (- 308)" by simp
  also have "\<dots> \<le> 10 powi k" using k by (intro power_int_increasing) simp_all
  finally have lo: "(2::real) powi (- 1024) \<le> 10 powi k" .
  have hi: "(10::real) powi k \<le> 10 powi 308" using k by (intro power_int_increasing) simp_all
  obtain p where "fl (10 powi k) = Fin p" "10 powi k / 2 \<le> p" "p \<le> 2 * 10 powi k"
    by (rule fl_near [OF lo hi])
  then show "\<exists>p. pow10 reference (Fin (of_int k)) = Fin p \<and> 10 powi k / 2 \<le> p \<and>
      p \<le> 2 * 10 powi k"
    unfolding pow10_reference_int by blast
qed

text \<open>
  So does the runtime with the values observed in V8: the three values lie within the
  room that \<open>conforms\<close> leaves.
\<close>

lemma conforms_observed: "conforms observed"
  unfolding conforms_def
proof (intro conjI allI impI)
  fix x :: real assume x: "0 < x"
  consider "x = 7036874417766399 / 70368744177664"
    | "x = 4722366482869645 / 4722366482869645213696"
    | "x \<noteq> 7036874417766399 / 70368744177664" "x \<noteq> 4722366482869645 / 4722366482869645213696"
    by blast
  then show "\<exists>v. Math_log10 observed (Fin x) = Fin v \<and>
      (\<forall>k. 10 powi k * (1 + 1 / 2 ^ 32) \<le> x \<longrightarrow> of_int k \<le> v) \<and>
      (\<forall>k. x * (1 + 1 / 2 ^ 32) \<le> 10 powi k \<longrightarrow> v < of_int k)"
  proof cases
    case 1
    have v: "Math_log10 observed (Fin x) = Fin 2" by (simp add: observed_def 1)
    have l: "real_of_int k \<le> 2" if "10 powi k * (1 + 1 / 2 ^ 32) \<le> x" for k
    proof -
      have "(10::real) powi k \<le> 10 powi k * (1 + 1 / 2 ^ 32)" by simp
      moreover have "x < 10 powi 3" by (simp add: 1)
      ultimately have "(10::real) powi k < 10 powi 3" using that by linarith
      then have "k < 3" by (rule powi_less_cancel [rotated]) simp
      then show ?thesis by simp
    qed
    have u: "2 < real_of_int k" if "x * (1 + 1 / 2 ^ 32) \<le> 10 powi k" for k
    proof -
      have "10 powi 2 < x * (1 + 1 / 2 ^ 32)" by (simp add: 1)
      then have "(10::real) powi 2 < 10 powi k" using that by linarith
      then have "2 < k" by (rule powi_less_cancel [rotated]) simp
      then show ?thesis by simp
    qed
    show ?thesis using v l u by blast
  next
    case 2
    have v: "Math_log10 observed (Fin x) = Fin (- 6)" by (simp add: observed_def 2)
    have l: "real_of_int k \<le> - 6" if "10 powi k * (1 + 1 / 2 ^ 32) \<le> x" for k
    proof -
      have "(10::real) powi k \<le> 10 powi k * (1 + 1 / 2 ^ 32)" by simp
      moreover have "x < 10 powi (- 5)" by (simp add: 2)
      ultimately have "(10::real) powi k < 10 powi (- 5)" using that by linarith
      then have "k < - 5" by (rule powi_less_cancel [rotated]) simp
      then show ?thesis by simp
    qed
    have u: "- 6 < real_of_int k" if "x * (1 + 1 / 2 ^ 32) \<le> 10 powi k" for k
    proof -
      have "10 powi (- 6) < x * (1 + 1 / 2 ^ 32)" by (simp add: 2)
      then have "(10::real) powi (- 6) < 10 powi k" using that by linarith
      then have "- 6 < k" by (rule powi_less_cancel [rotated]) simp
      then show ?thesis by simp
    qed
    show ?thesis using v l u by blast
  next
    case 3
    then have "Math_log10 observed (Fin x) = Math_log10 reference (Fin x)"
      by (simp add: observed_def reference_def)
    then show ?thesis using conforms_log10 [OF conforms_reference x] by simp
  qed
next
  have "Math_log10 observed (Fin 1) = Math_log10 reference (Fin 1)"
    by (simp add: observed_def reference_def)
  then show "Math_log10 observed (Fin 1) = Fin 0"
    by (simp add: conforms_log10_1 [OF conforms_reference])
next
  fix a
  have "pow10 observed a = Fin (1844674407370955 / 18446744073709551616) \<or>
      pow10 observed a = pow10 reference a"
    by (simp add: observed_def reference_def)
  then show "nonneg (pow10 observed a) \<or> pow10 observed a = NaN"
    using conforms_pow10_sign [OF conforms_reference, of a] by auto
next
  fix k :: int assume k: "0 \<le> k \<and> k \<le> 22"
  then have "real_of_int k \<noteq> - 4" by linarith
  then have "pow10 observed (Fin (of_int k)) = pow10 reference (Fin (of_int k))"
    by (simp add: observed_def reference_def)
  then show "pow10 observed (Fin (of_int k)) = Fin (10 powi k)"
    using conforms_pow10_exact [OF conforms_reference, of k] k by simp
next
  fix k :: int assume k: "- 308 \<le> k \<and> k \<le> 308"
  show "\<exists>p. pow10 observed (Fin (of_int k)) = Fin p \<and> 10 powi k / 2 \<le> p \<and> p \<le> 2 * 10 powi k"
  proof (cases "k = - 4")
    case True
    have "pow10 observed (Fin (of_int k)) = Fin (1844674407370955 / 18446744073709551616)"
      by (simp add: observed_def True)
    moreover have "10 powi k / 2 \<le> (1844674407370955 / 18446744073709551616 :: real)"
      "(1844674407370955 / 18446744073709551616 :: real) \<le> 2 * 10 powi k"
      by (simp_all add: True)
    ultimately show ?thesis by blast
  next
    case False
    then have "real_of_int k \<noteq> - 4" by linarith
    then have "pow10 observed (Fin (of_int k)) = pow10 reference (Fin (of_int k))"
      by (simp add: observed_def reference_def)
    moreover obtain p where "pow10 reference (Fin (of_int k)) = Fin p" "10 powi k / 2 \<le> p"
      "p \<le> 2 * 10 powi k"
      using k by (blast intro: conforms_pow10_near [OF conforms_reference, of k])
    ultimately show ?thesis by auto
  qed
qed

text \<open>
  On these numbers the model with the observed runtime gives what the source gives in
  V8, and the reference runtime does not: the digit counts 3 and \<open>-5\<close>, and the steps
  \<^verbatim>\<open>getFormatStep(99.99999999999999, true, 1) = 105\<close> and
  \<^verbatim>\<open>getFormatStep(0.00025, true, 0) = 0.000255\<close>.
\<close>

lemma getDigitCount_observed:
  "getDigitCount observed (Fin (7036874417766399 / 70368744177664)) = Fin 3"
  "getDigitCount observed (Fin (4722366482869645 / 4722366482869645213696)) = Fin (- 5)"
  by (simp_all add: getDigitCount_def num_eq_def observed_def fl_eval)

lemma getDigitCount_reference:
  "getDigitCount reference (Fin (7036874417766399 / 70368744177664)) = Fin 2"
  "getDigitCount reference (Fin (4722366482869645 / 4722366482869645213696)) = Fin (- 6)"
  by (simp_all add: getDigitCount_def num_eq_def reference_def fl_eval)

lemma getFormatStep_observed_below_100:
  "getFormatStep observed (Fin (7036874417766399 / 70368744177664)) True (Fin 1) = Fin 105"
proof -
  have f: "Math_floor (Math_log10 observed (Fin (7036874417766399 / 70368744177664))) =
      Fin (of_int 2)"
    by (simp add: observed_def)
  have p: "pow10 observed (Fin (of_int 2)) = Fin 100"
    using conforms_pow10_exact [OF conforms_observed, of 2] by simp
  have "getFormatStep observed (Fin (7036874417766399 / 70368744177664)) True (Fin 1) =
      (let pow = pow10 observed (Fin (of_int 2));
           s = (if (2::int) \<noteq> 0 then fl (5 / 100) else fl (1 / 10));
           n = num_mul (num_mul (num_add (Math_ceil
                 (num_div (num_div (Fin (7036874417766399 / 70368744177664)) pow) s))
                 (Fin 1)) s) pow
       in if \<not> True then Math_ceil n else n)"
    by (rule getFormatStep_floor [OF _ f]) simp_all
  then show ?thesis unfolding p by (simp add: fl_eval)
qed

lemma getFormatStep_observed_00025:
  "getFormatStep observed (Fin (1152921504606847 / 4611686018427387904)) True (Fin 0) =
   Fin (146997491837373 / 576460752303423488)"
proof -
  have f: "Math_floor (Math_log10 observed (Fin (1152921504606847 / 4611686018427387904))) =
      Fin (of_int (- 4))"
    by (simp add: observed_def ilog_def compute_floorlog)
  have p: "pow10 observed (Fin (of_int (- 4))) = Fin (1844674407370955 / 18446744073709551616)"
    by (simp add: observed_def)
  have "getFormatStep observed (Fin (1152921504606847 / 4611686018427387904)) True (Fin 0) =
      (let pow = pow10 observed (Fin (of_int (- 4)));
           s = (if (- 4::int) \<noteq> 0 then fl (5 / 100) else fl (1 / 10));
           n = num_mul (num_mul (num_add (Math_ceil
                 (num_div (num_div (Fin (1152921504606847 / 4611686018427387904)) pow) s))
                 (Fin 0)) s) pow
       in if \<not> True then Math_ceil n else n)"
    by (rule getFormatStep_floor [OF _ f]) simp_all
  then show ?thesis unfolding p by (simp add: fl_eval)
qed

section \<open>Evaluation on concrete numbers\<close>

lemma range_int_0_4: "range_int 0 4 = [Fin 0, Fin 1, Fin 2, Fin 3]"
  by (simp add: range_int_def num_def upto_rec1 fl_eval)

lemma getTickOfSingleValue_5_4:
  "getTickOfSingleValue rt (Fin 5) 4 True = [Fin 4, Fin 5, Fin 6, Fin 7]"
  by (simp add: getTickOfSingleValue_def range_int_0_4 num_eq_def num_sub_def num_def fl_eval)

lemma getNiceTickValues_single:
  "getNiceTickValues rt (Fin a, Fin a) n d = Some (getTickOfSingleValue rt (Fin a) n d)"
  by (simp add: getNiceTickValues_def getValidInterval_def num_gt_def num_eq_def)

section \<open>The scenario of the spec: six ticks on \<open>[0, 100]\<close>\<close>

lemma getFormatStep_20:
  assumes c: "conforms rt"
  shows "getFormatStep rt (Fin 20) True (Fin 0) = Fin 20"
proof -
  have f: "Math_floor (Math_log10 rt (Fin 20)) = Fin (of_int 1)"
    by (rule log10_decade [OF c]) simp_all
  have "getFormatStep rt (Fin 20) True (Fin 0) =
      (let pow = pow10 rt (Fin (of_int 1));
           s = (if (1::int) \<noteq> 0 then fl (5 / 100) else fl (1 / 10));
           n = num_mul (num_mul (num_add (Math_ceil (num_div (num_div (Fin 20) pow) s)) (Fin 0)) s) pow
       in if \<not> True then Math_ceil n else n)"
    by (rule getFormatStep_floor [OF _ f]) simp_all
  then show ?thesis by (simp add: conforms_pow10_1 [OF c] fl_eval)
qed

lemma calculateStep_0_100_6:
  assumes c: "conforms rt"
  shows "calculateStep rt (Fin 0) (Fin 100) 6 True (Fin 0) =
   Some \<lparr>step = Fin 20, tickMin = Fin 0, tickMax = Fin 100\<rparr>"
  apply (subst calculateStep.simps)
  apply (simp add: num_def num_sub_def num_le_def num_ge_def num_gt_def num_eq_def fl_eval)
  apply (simp add: getFormatStep_20 [OF c] fl_eval)
  done

lemma rangeStep_0_102_20:
  "rangeStep (Fin 0) (Fin 102) (Fin 20) = [Fin 0, Fin 20, Fin 40, Fin 60, Fin 80, Fin 100]"
  by (simp add: rangeStep_def rangeStep_loop.simps fl_eval)

text \<open>
  C2. \<^verbatim>\<open>getNiceTickValues([0, 100], 6)\<close>, with \<^verbatim>\<open>allowDecimals\<close> at its default
  \<^verbatim>\<open>true\<close>: in every conforming runtime the step search returns the step 20, and the
  ticks are \<open>[0, 20, 40, 60, 80, 100]\<close>.
\<close>

theorem getNiceTickValues_0_100_6:
  assumes "conforms rt"
  shows "map_option step (calculateStep rt (Fin 0) (Fin 100) (max 6 2) True (Fin 0)) = Some (Fin 20) \<and>
   getNiceTickValues rt (Fin 0, Fin 100) 6 True =
   Some [Fin 0, Fin 20, Fin 40, Fin 60, Fin 80, Fin 100]"
  by (simp add: getNiceTickValues_def getValidInterval_def num_gt_def num_eq_def
      calculateStep_0_100_6 [OF assms] rangeStep_0_102_20 fl_eval)

theorem getNiceTickValues_0_100_6_witness:
  "conforms reference \<and>
   map_option step (calculateStep reference (Fin 0) (Fin 100) (max 6 2) True (Fin 0)) =
     Some (Fin 20) \<and>
   getNiceTickValues reference (Fin 0, Fin 100) 6 True =
   Some [Fin 0, Fin 20, Fin 40, Fin 60, Fin 80, Fin 100]"
  using conforms_reference getNiceTickValues_0_100_6 [OF conforms_reference] by blast

section \<open>The arithmetic sequence of \<^verbatim>\<open>rangeStep\<close>\<close>

lemma progression_shift:
  "progression start stp (Suc k) = progression (num_add start stp) stp k"
  by (induction k) simp_all

lemma map_progression_Suc:
  "map (progression start stp) [0..<Suc m] =
   start # map (progression (num_add start stp) stp) [0..<m]"
proof -
  have "[0..<Suc m] = 0 # map Suc [0..<m]"
    by (simp add: upt_conv_Cons map_Suc_upt del: upt_Suc)
  then show ?thesis
    by (simp add: progression_shift comp_def del: upt_Suc progression.simps(2))
qed

lemma rangeStep_loop_spec:
  "i \<le> 100000 \<Longrightarrow>
   \<exists>m. rangeStep_loop n e s i res = res @ map (progression n s) [0..<m] \<and>
       i + m \<le> 100000 \<and>
       (\<forall>k<m. num_less (progression n s k) e) \<and>
       (i + m = 100000 \<or> \<not> num_less (progression n s m) e)"
proof (induction n e s i res rule: rangeStep_loop.induct)
  case (1 n e s i res)
  show ?case
  proof (cases "num_less n e \<and> i < 100000")
    case True
    then have "i + 1 \<le> 100000" by simp
    from "1.IH" [OF True this] obtain m where
      m: "rangeStep_loop (num_add n s) e s (i + 1) (res @ [n]) =
            (res @ [n]) @ map (progression (num_add n s) s) [0..<m]"
        "i + 1 + m \<le> 100000"
        "\<forall>k<m. num_less (progression (num_add n s) s k) e"
        "i + 1 + m = 100000 \<or> \<not> num_less (progression (num_add n s) s m) e"
      by blast
    have a: "rangeStep_loop n e s i res = res @ map (progression n s) [0..<Suc m]"
      using True m(1) by (subst rangeStep_loop.simps) (simp add: map_progression_Suc del: upt_Suc)
    have b: "\<forall>k<Suc m. num_less (progression n s k) e"
    proof (intro allI impI)
      fix k assume "k < Suc m"
      then show "num_less (progression n s k) e"
        using True m(3) by (cases k) (simp_all add: progression_shift del: progression.simps(2))
    qed
    have c: "i + Suc m = 100000 \<or> \<not> num_less (progression n s (Suc m)) e"
      using m(4) by (simp add: progression_shift del: progression.simps(2))
    have d: "i + Suc m \<le> 100000" using m(2) by simp
    show ?thesis using a b c d by blast
  next
    case False
    then have "rangeStep_loop n e s i res = res @ map (progression n s) [0..<0]"
      by (subst rangeStep_loop.simps) auto
    moreover have "i + 0 = 100000 \<or> \<not> num_less (progression n s 0) e"
      using False "1.prems" by auto
    ultimately show ?thesis using "1.prems" by (intro exI [of _ 0]) simp
  qed
qed

lemma rangeStep_spec:
  obtains m where
    "rangeStep start end stp = map (progression start stp) [0..<m]"
    "m \<le> 100000"
    "\<forall>k<m. num_less (progression start stp k) end"
    "m = 100000 \<or> \<not> num_less (progression start stp m) end"
  using rangeStep_loop_spec [of 0 start "end" stp "[]"] by (auto simp add: rangeStep_def)

lemma rangeStep_0_1_tenth:
  "rangeStep (Fin 0) (Fin 1) (fl (1 / 10)) =
   [Fin 0,
    Fin (3602879701896397 / 36028797018963968),
    Fin (3602879701896397 / 18014398509481984),
    Fin (1351079888211149 / 4503599627370496),
    Fin (3602879701896397 / 9007199254740992),
    Fin (1 / 2),
    Fin (5404319552844595 / 9007199254740992),
    Fin (3152519739159347 / 4503599627370496),
    Fin (7205759403792793 / 9007199254740992),
    Fin (2026619832316723 / 2251799813685248),
    Fin (9007199254740991 / 9007199254740992)]"
  by (simp add: rangeStep_def rangeStep_loop.simps fl_eval)

text \<open>
  C8, as the spec states it: the elements of \<^verbatim>\<open>rangeStep(start, end, step)\<close> are
  \<^verbatim>\<open>start, start + step, start + 2 * step, ...\<close>. The loop adds \<^verbatim>\<open>step\<close> to the
  previous element instead, and each addition rounds: in \<^verbatim>\<open>rangeStep(0, 1, 0.1)\<close> the
  element of index 8 is not \<^verbatim>\<open>0 + 8 * 0.1\<close>, and eleven elements are below 1.
\<close>

theorem rangeStep_multiples_counterexample:
  "rangeStep (Fin 0) (Fin 1) (fl (1 / 10)) ! 8 \<noteq>
     num_add (Fin 0) (num_mul (Fin 8) (fl (1 / 10))) \<and>
   length (rangeStep (Fin 0) (Fin 1) (fl (1 / 10))) = 11"
  by (simp add: rangeStep_0_1_tenth) (simp add: fl_eval)

text \<open>
  C8, amended. For all numbers \<open>start\<close>, \<open>end\<close> and \<open>step\<close> (zero, negative and tiny
  steps included), \<^verbatim>\<open>rangeStep(start, end, step)\<close> has at most 100000 elements; its
  element of index \<open>k\<close> is \<open>start\<close> with \<open>step\<close> added \<open>k\<close> times, each sum rounded;
  every element is less than \<open>end\<close>; and the list stops only at 100000 elements or
  when the next sum is not less than \<open>end\<close>.
\<close>

theorem rangeStep_progression:
  "length (rangeStep start end stp) \<le> 100000 \<and>
   rangeStep start end stp =
     map (progression start stp) [0..<length (rangeStep start end stp)] \<and>
   (\<forall>x \<in> set (rangeStep start end stp). num_less x end) \<and>
   (length (rangeStep start end stp) = 100000 \<or>
    \<not> num_less (progression start stp (length (rangeStep start end stp))) end)"
proof -
  obtain m where
    m: "rangeStep start end stp = map (progression start stp) [0..<m]"
       "m \<le> 100000"
       "\<forall>k<m. num_less (progression start stp k) end"
       "m = 100000 \<or> \<not> num_less (progression start stp m) end"
    by (rule rangeStep_spec)
  have l: "length (rangeStep start end stp) = m" by (simp add: m(1))
  show ?thesis unfolding l using m by auto
qed

theorem rangeStep_progression_witness:
  "length (rangeStep (Fin 0) (Fin 102) (Fin 20)) \<le> 100000 \<and>
   rangeStep (Fin 0) (Fin 102) (Fin 20) =
     map (progression (Fin 0) (Fin 20)) [0..<length (rangeStep (Fin 0) (Fin 102) (Fin 20))] \<and>
   Fin 100 \<in> set (rangeStep (Fin 0) (Fin 102) (Fin 20)) \<and> num_less (Fin 100) (Fin 102) \<and>
   \<not> num_less (progression (Fin 0) (Fin 20) (length (rangeStep (Fin 0) (Fin 102) (Fin 20))))
       (Fin 102)"
proof -
  note t = rangeStep_progression [of "Fin 0" "Fin 102" "Fin 20"]
  have m: "Fin 100 \<in> set (rangeStep (Fin 0) (Fin 102) (Fin 20))"
    by (simp add: rangeStep_0_102_20)
  have l: "length (rangeStep (Fin 0) (Fin 102) (Fin 20)) \<noteq> 100000"
    by (simp add: rangeStep_0_102_20)
  show ?thesis using t m l by blast
qed

section \<open>A step search that does not return\<close>

lemma straddle_rough:
  "num_div (num_sub (Fin 1) (Fin (- 1))) (num_sub (Fin 2) (Fin 1)) = Fin 2"
  by (simp add: num_sub_def fl_eval)

lemma getFormatStep_2:
  assumes c: "conforms rt"
  shows "getFormatStep rt (Fin 2) d cf =
     (let s = num_mul (num_mul (num_add (Fin 20) cf) (Fin (3602879701896397 / 36028797018963968)))
                (Fin 1)
      in if \<not> d then Math_ceil s else s)"
proof -
  have f: "Math_floor (Math_log10 rt (Fin 2)) = Fin (of_int 0)"
    by (rule log10_decade [OF c]) simp_all
  have "getFormatStep rt (Fin 2) d cf =
      (let pow = pow10 rt (Fin (of_int 0));
           s = (if (0::int) \<noteq> 0 then fl (5 / 100) else fl (1 / 10));
           n = num_mul (num_mul (num_add (Math_ceil (num_div (num_div (Fin 2) pow) s)) cf) s) pow
       in if \<not> d then Math_ceil n else n)"
    by (rule getFormatStep_floor [OF _ f]) simp_all
  then show ?thesis by (simp add: conforms_pow10_0 [OF c] fl_eval)
qed

lemma straddle_step:
  assumes c: "conforms rt" and "0 \<le> c" and "c \<le> 2 ^ 60"
  obtains v where "getFormatStep rt (Fin 2) d (Fin c) = Fin v" and "2 \<le> v" and "v \<le> 2 ^ 57"
proof -
  have e20: "fl 20 = Fin 20" by (simp add: fl_eval)
  have e60: "fl (20 + 2 ^ 60) = Fin (2 ^ 60)" by (simp add: fl_eval)
  have e2: "fl (20 * (3602879701896397 / 36028797018963968)) = Fin 2" by (simp add: fl_eval)
  have e57: "fl (2 ^ 57) = Fin (2 ^ 57)" by (simp add: fl_eval)
  have e3: "fl 2 = Fin 2" by (simp add: fl_eval)
  obtain a where a: "num_add (Fin 20) (Fin c) = Fin a" "20 \<le> a" "a \<le> 2 ^ 60"
    using fl_between [OF _ _ e20 e60, of "20 + c"] assms(2,3) by auto
  have "20 * (3602879701896397 / 36028797018963968) \<le> a * (3602879701896397 / 36028797018963968)"
    "a * (3602879701896397 / 36028797018963968) \<le> 2 ^ 57"
    using a(2,3) by simp_all
  then obtain b where
    b: "num_mul (Fin a) (Fin (3602879701896397 / 36028797018963968)) = Fin b" "2 \<le> b" "b \<le> 2 ^ 57"
    using fl_between [OF _ _ e2 e57, of "a * (3602879701896397 / 36028797018963968)"]
    by (metis num_mul.simps(1))
  have "2 \<le> b * 1" "b * 1 \<le> 2 ^ 57" using b by simp_all
  then obtain v where v: "num_mul (Fin b) (Fin 1) = Fin v" "2 \<le> v" "v \<le> 2 ^ 57"
    using fl_between [OF _ _ e3 e57, of "b * 1"] by (metis num_mul.simps(1))
  have c: "2 \<le> real_of_int \<lceil>v\<rceil>" "real_of_int \<lceil>v\<rceil> \<le> 2 ^ 57"
  proof -
    show "2 \<le> real_of_int \<lceil>v\<rceil>" using v(2) by linarith
    have "\<lceil>v\<rceil> \<le> 2 ^ 57" using v(3) by (simp add: ceiling_le_iff)
    then have "real_of_int \<lceil>v\<rceil> \<le> real_of_int (2 ^ 57)" by (rule of_int_le_iff [THEN iffD2])
    then show "real_of_int \<lceil>v\<rceil> \<le> 2 ^ 57" by simp
  qed
  have s: "getFormatStep rt (Fin 2) d (Fin c) = (if \<not> d then Fin (of_int \<lceil>v\<rceil>) else Fin v)"
    unfolding getFormatStep_2 [OF assms(1)] Let_def a b v by simp
  show ?thesis
    using that [of "if \<not> d then of_int \<lceil>v\<rceil> else v"] s v c by (cases d) simp_all
qed

lemma straddle_count:
  assumes "2 \<le> v" and "v \<le> 2 ^ 57"
  shows "Math_ceil (num_div (num_sub (Fin 0) (Fin (- 1))) (Fin v)) = Fin 1"
    and "Math_ceil (num_div (num_sub (Fin 1) (Fin 0)) (Fin v)) = Fin 1"
proof -
  have lo: "fl (1 / 2 ^ 57) = Fin (1 / 2 ^ 57)" by (simp add: fl_eval)
  have hi: "fl (1 / 2) = Fin (1 / 2)" by (simp add: fl_eval)
  have "1 / 2 ^ 57 \<le> 1 / v" "1 / v \<le> 1 / 2"
    using assms by (simp_all add: field_simps)
  then obtain y where y: "fl (1 / v) = Fin y" "1 / 2 ^ 57 \<le> y" "y \<le> 1 / 2"
    using fl_between [OF _ _ lo hi, of "1 / v"] by auto
  have "0 < y" using y(2) by (rule less_le_trans [rotated]) simp
  then have c: "\<lceil>y\<rceil> = 1" using y(3) by (simp add: ceiling_eq_iff)
  have v: "v \<noteq> 0" using assms by simp
  have s1: "num_sub (Fin 0) (Fin (- 1)) = Fin 1" "num_sub (Fin 1) (Fin 0) = Fin 1"
    by (simp_all add: num_sub_def fl_eval)
  show "Math_ceil (num_div (num_sub (Fin 0) (Fin (- 1))) (Fin v)) = Fin 1"
    and "Math_ceil (num_div (num_sub (Fin 1) (Fin 0)) (Fin v)) = Fin 1"
    using v by (simp_all add: s1 y c)
qed

lemma straddle_next:
  assumes "0 \<le> c" and "c \<le> 2 ^ 60"
  obtains c' where "num_add (Fin c) (Fin 1) = Fin c'" and "0 \<le> c'" and "c' \<le> 2 ^ 60"
proof -
  have lo: "fl 0 = Fin 0" by (simp add: fl_eval)
  have hi: "fl (2 ^ 60 + 1) = Fin (2 ^ 60)" by (simp add: fl_eval)
  have "0 \<le> c + 1" "c + 1 \<le> 2 ^ 60 + 1" using assms by simp_all
  then show ?thesis
    using fl_between [OF _ _ lo hi, of "c + 1"] that by (metis num_add.simps(1))
qed

lemma fl_small: "fl 2 = Fin 2" "fl 3 = Fin 3"
  by (simp_all add: fl_eval)

text \<open>
  No call \<^verbatim>\<open>calculateStep(-1, 1, 2, allowDecimals, c)\<close> with \<open>0 \<le> c \<le> 2\<^sup>6\<^sup>0\<close> returns:
  each one calls the next, and the correction factor never leaves the range, since
  \<open>2\<^sup>6\<^sup>0 + 1\<close> rounds to \<open>2\<^sup>6\<^sup>0\<close>.
\<close>

lemma calculateStep_straddle_2:
  assumes "calculateStep rt mn mx tickCount d cf = Some y"
  shows "\<not> (conforms rt \<and> mn = Fin (- 1) \<and> mx = Fin 1 \<and> tickCount = 2 \<and>
            (\<exists>c. cf = Fin c \<and> 0 \<le> c \<and> c \<le> 2 ^ 60))"
proof (rule calculateStep.raw_induct
    [where P = "\<lambda>rt mn mx tickCount d cf y.
       \<not> (conforms rt \<and> mn = Fin (- 1) \<and> mx = Fin 1 \<and> tickCount = 2 \<and>
          (\<exists>c. cf = Fin c \<and> 0 \<le> c \<and> c \<le> 2 ^ 60))", OF _ assms])
  fix f :: "runtime \<Rightarrow> number \<Rightarrow> number \<Rightarrow> int \<Rightarrow> bool \<Rightarrow> number \<Rightarrow> step_result option"
    and rt :: runtime and mn mx :: number and tickCount :: int and d :: bool and cf :: number
    and y :: step_result
  assume IH: "\<And>rt mn mx tickCount d cf y. f rt mn mx tickCount d cf = Some y \<Longrightarrow>
      \<not> (conforms rt \<and> mn = Fin (- 1) \<and> mx = Fin 1 \<and> tickCount = 2 \<and>
          (\<exists>c. cf = Fin c \<and> 0 \<le> c \<and> c \<le> 2 ^ 60))"
  assume body: "(if \<not> isFinite (num_div (num_sub mx mn) (num_sub (num tickCount) (Fin 1)))
      then Some \<lparr>step = Fin 0, tickMin = Fin 0, tickMax = Fin 0\<rparr>
      else
        let step = getFormatStep rt (num_div (num_sub mx mn) (num_sub (num tickCount) (Fin 1)))
                     d cf;
            middle =
              (if num_le mn (Fin 0) \<and> num_ge mx (Fin 0) then Fin 0
               else let middle = num_div (num_add mn mx) (Fin 2)
                    in num_sub middle (num_mod (num_add (num_mod middle step) step) step));
            belowCount = Math_ceil (num_div (num_sub middle mn) step);
            upCount = Math_ceil (num_div (num_sub mx middle) step);
            scaleCount = num_add (num_add belowCount upCount) (Fin 1)
        in if num_gt scaleCount (num tickCount)
           then f rt mn mx tickCount d (num_add cf (Fin 1))
           else
             let (belowCount, upCount) =
                   (if num_less scaleCount (num tickCount)
                    then if num_gt mx (Fin 0)
                         then (belowCount, num_add upCount (num_sub (num tickCount) scaleCount))
                         else (num_add belowCount (num_sub (num tickCount) scaleCount), upCount)
                    else (belowCount, upCount))
             in Some \<lparr>step = step,
                       tickMin = num_sub middle (num_mul belowCount step),
                       tickMax = num_add middle (num_mul upCount step)\<rparr>) = Some y"
  show "\<not> (conforms rt \<and> mn = Fin (- 1) \<and> mx = Fin 1 \<and> tickCount = 2 \<and>
          (\<exists>c. cf = Fin c \<and> 0 \<le> c \<and> c \<le> 2 ^ 60))"
  proof (intro notI, elim conjE exE)
    fix c
    assume rt: "conforms rt"
      and args: "mn = Fin (- 1)" "mx = Fin 1" "tickCount = 2" "cf = Fin c"
      and c: "0 \<le> c" "c \<le> 2 ^ 60"
    obtain v where v: "getFormatStep rt (Fin 2) d (Fin c) = Fin v" "2 \<le> v" "v \<le> 2 ^ 57"
      using straddle_step [OF rt c] by blast
    obtain c' where c': "num_add (Fin c) (Fin 1) = Fin c'" "0 \<le> c'" "c' \<le> 2 ^ 60"
      using straddle_next [OF c] by blast
    have "f rt (Fin (- 1)) (Fin 1) 2 d (Fin c') = Some y"
      using body
      by (simp add: args straddle_rough v straddle_count [OF v(2,3)] c'(1) [unfolded num_add.simps]
          num_ge_def num_gt_def num_def fl_small Let_def)
    then show False using IH rt c'(2,3) by blast
  qed
qed

lemma calculateStep_never:
  assumes "conforms rt"
  shows "calculateStep rt (Fin (- 1)) (Fin 1) 2 d (Fin 0) = None"
proof (cases "calculateStep rt (Fin (- 1)) (Fin 1) 2 d (Fin 0)")
  case None
  then show ?thesis .
next
  case (Some y)
  then show ?thesis using calculateStep_straddle_2 [OF Some] assms by simp
qed

lemma getNiceTickValues_never:
  assumes "conforms rt"
  shows "getNiceTickValues rt (Fin (- 1), Fin 1) 2 d = None"
    and "getNiceTickValues rt (Fin 1, Fin (- 1)) 2 d = None"
  by (simp_all add: getNiceTickValues_def getValidInterval_def num_gt_def num_eq_def
      calculateStep_never [OF assms])

text \<open>
  C1 claims that \<^verbatim>\<open>calculateStep(min, max, tickCount, allowDecimals, 0)\<close> returns for
  all finite \<open>min < max\<close> and every integer \<open>tickCount \<ge> 2\<close>. On \<open>min = -1\<close>,
  \<open>max = 1\<close>, \<open>tickCount = 2\<close> it does not, in any conforming runtime: with zero
  strictly inside the interval one tick lies below zero and one above, so
  \<^verbatim>\<open>scaleCount\<close> is 3 for every step and every call calls again.
\<close>

theorem calculateStep_not_terminating:
  "conforms rt \<Longrightarrow> calculateStep rt (Fin (- 1)) (Fin 1) 2 True (Fin 0) = None"
  by (rule calculateStep_never)

theorem calculateStep_not_terminating_witness:
  "conforms reference \<and> calculateStep reference (Fin (- 1)) (Fin 1) 2 True (Fin 0) = None"
  using conforms_reference calculateStep_not_terminating [OF conforms_reference] by blast

section \<open>Ticks on a fixed domain\<close>

















section \<open>The formatted step and the rough step\<close>









section \<open>Zero as a tick\<close>

text \<open>
  Five ticks on \<open>[-3.9, 1]\<close>. The rough step \<open>1.225\<close> lies well inside the decade
  \<open>[1, 10)\<close>, so every conforming runtime computes the same step \<open>1.3\<close>.
\<close>

lemma getFormatStep_1225:
  assumes c: "conforms rt"
  shows "getFormatStep rt (Fin (2758454771764429 / 2251799813685248)) True (Fin 0) =
         Fin (5854679515581645 / 4503599627370496)"
proof -
  have f: "Math_floor (Math_log10 rt (Fin (2758454771764429 / 2251799813685248))) = Fin (of_int 0)"
    by (rule log10_decade [OF c]) simp_all
  have "getFormatStep rt (Fin (2758454771764429 / 2251799813685248)) True (Fin 0) =
      (let pow = pow10 rt (Fin (of_int 0));
           s = (if (0::int) \<noteq> 0 then fl (5 / 100) else fl (1 / 10));
           n = num_mul (num_mul (num_add (Math_ceil
                 (num_div (num_div (Fin (2758454771764429 / 2251799813685248)) pow) s))
                 (Fin 0)) s) pow
       in if \<not> True then Math_ceil n else n)"
    by (rule getFormatStep_floor [OF _ f]) simp_all
  then show ?thesis by (simp add: conforms_pow10_0 [OF c] fl_eval)
qed

lemma rough_39_1:
  "num_div (num_sub (Fin 1) (Fin (- (8782019273372467 / 2251799813685248))))
      (num_sub (num 5) (Fin 1)) =
   Fin (2758454771764429 / 2251799813685248)"
  by (simp add: num_sub_def num_def fl_eval)

lemma calculateStep_39_1:
  assumes c: "conforms rt"
  shows "calculateStep rt (Fin (- (8782019273372467 / 2251799813685248))) (Fin 1) 5 True (Fin 0) =
   Some \<lparr>step = Fin (5854679515581645 / 4503599627370496),
          tickMin = Fin (- (2195504818343117 / 562949953421312)),
          tickMax = Fin (5854679515581645 / 4503599627370496)\<rparr>"
  apply (subst calculateStep.simps)
  apply (simp only: rough_39_1 getFormatStep_1225 [OF c])
  apply (simp add: num_def num_sub_def num_le_def num_ge_def num_gt_def num_eq_def fl_eval)
  done

lemma getNiceTickValues_39_1:
  assumes c: "conforms rt"
  shows "getNiceTickValues rt (Fin (- (8782019273372467 / 2251799813685248)), Fin 1) 5 True =
   Some [Fin (- (2195504818343117 / 562949953421312)),
    Fin (- (2927339757790823 / 1125899906842624)),
    Fin (- (5854679515581647 / 4503599627370496)),
    Fin (- (1 / 2251799813685248)),
    Fin (5854679515581643 / 4503599627370496)]"
  unfolding getNiceTickValues_def
  apply (simp only: prod.case Let_def)
  apply (simp add: getValidInterval_def num_gt_def num_eq_def calculateStep_39_1 [OF c])
  apply (simp add: rangeStep_def rangeStep_loop.simps fl_eval)
  done

text \<open>
  Five ticks on \<open>[-0.3, 0.1]\<close>. The rough step is the binary64 value \<open>0.1\<close>, next to a
  power of ten: the ticks are computed for the runtimes where
  \<^verbatim>\<open>Math.floor(Math.log10(0.1))\<close> is \<open>-1\<close> and \<^verbatim>\<open>10 ** -1\<close> is \<open>0.1\<close>, as in V8 and in the
  reference runtime.
\<close>

lemma getFormatStep_tenth:
  assumes f: "Math_floor (Math_log10 rt (Fin (3602879701896397 / 36028797018963968))) = Fin (- 1)"
    and p: "pow10 rt (Fin (- 1)) = Fin (3602879701896397 / 36028797018963968)"
  shows "getFormatStep rt (Fin (3602879701896397 / 36028797018963968)) True (Fin 0) =
   Fin (3602879701896397 / 36028797018963968)"
proof -
  have f': "Math_floor (Math_log10 rt (Fin (3602879701896397 / 36028797018963968))) =
      Fin (of_int (- 1))"
    using f by simp
  have "getFormatStep rt (Fin (3602879701896397 / 36028797018963968)) True (Fin 0) =
      (let pow = pow10 rt (Fin (of_int (- 1)));
           s = (if (- 1::int) \<noteq> 0 then fl (5 / 100) else fl (1 / 10));
           n = num_mul (num_mul (num_add (Math_ceil
                 (num_div (num_div (Fin (3602879701896397 / 36028797018963968)) pow) s))
                 (Fin 0)) s) pow
       in if \<not> True then Math_ceil n else n)"
    by (rule getFormatStep_floor [OF _ f']) simp_all
  then show ?thesis by (simp add: p fl_eval)
qed

lemma rough_03_01:
  "num_div (num_sub (Fin (3602879701896397 / 36028797018963968))
      (Fin (- (5404319552844595 / 18014398509481984)))) (num_sub (num 5) (Fin 1)) =
   Fin (3602879701896397 / 36028797018963968)"
  by (simp add: num_sub_def num_def fl_eval)

lemma calculateStep_03_01:
  assumes f: "Math_floor (Math_log10 rt (Fin (3602879701896397 / 36028797018963968))) = Fin (- 1)"
    and p: "pow10 rt (Fin (- 1)) = Fin (3602879701896397 / 36028797018963968)"
  shows "calculateStep rt (Fin (- (5404319552844595 / 18014398509481984)))
     (Fin (3602879701896397 / 36028797018963968)) 5 True (Fin 0) =
   Some \<lparr>step = Fin (3602879701896397 / 36028797018963968),
          tickMin = Fin (- (1351079888211149 / 4503599627370496)),
          tickMax = Fin (3602879701896397 / 36028797018963968)\<rparr>"
  apply (subst calculateStep.simps)
  apply (simp only: rough_03_01 getFormatStep_tenth [OF f p])
  apply (simp add: num_def num_sub_def num_le_def num_ge_def num_gt_def num_eq_def fl_eval)
  done

lemma getNiceTickValues_03_01:
  assumes f: "Math_floor (Math_log10 rt (Fin (3602879701896397 / 36028797018963968))) = Fin (- 1)"
    and p: "pow10 rt (Fin (- 1)) = Fin (3602879701896397 / 36028797018963968)"
  shows "getNiceTickValues rt (Fin (- (5404319552844595 / 18014398509481984)),
      Fin (3602879701896397 / 36028797018963968)) 5 True =
   Some [Fin (- (1351079888211149 / 4503599627370496)),
    Fin (- (7205759403792795 / 36028797018963968)),
    Fin (- (1801439850948199 / 18014398509481984)),
    Fin (- (1 / 36028797018963968)),
    Fin (900719925474099 / 9007199254740992)]"
  unfolding getNiceTickValues_def
  apply (simp only: prod.case Let_def)
  apply (simp add: getValidInterval_def num_gt_def num_eq_def calculateStep_03_01 [OF f p])
  apply (simp add: rangeStep_def rangeStep_loop.simps fl_eval)
  done

lemma literals_zero_missing:
  "fl (- (39 / 10)) = Fin (- (8782019273372467 / 2251799813685248))"
  "fl (- (3 / 10)) = Fin (- (5404319552844595 / 18014398509481984))"
  "fl (1 / 10) = Fin (3602879701896397 / 36028797018963968)"
  by (simp_all add: fl_eval)

lemma reference_tenth:
  "Math_floor (Math_log10 reference (fl (1 / 10))) = Fin (- 1)"
  "pow10 reference (Fin (- 1)) = fl (1 / 10)"
proof -
  show "Math_floor (Math_log10 reference (fl (1 / 10))) = Fin (- 1)"
    unfolding literals_zero_missing by (simp add: reference_def ilog_def compute_floorlog)
  have "pow10 reference (Fin (real_of_int (- 1))) = fl (10 powi (- 1))"
    by (rule pow10_reference_int)
  then show "pow10 reference (Fin (- 1)) = fl (1 / 10)" by simp
qed

text \<open>
  C3 claims that the ticks of \<^verbatim>\<open>getNiceTickValues([min, max], tickCount)\<close> contain
  exactly 0 for all finite \<open>min \<le> 0 \<le> max\<close>, \<open>min < max\<close>, and every \<open>tickCount\<close>. The
  code anchors the ticks at 0 but starts the sequence at \<^verbatim>\<open>tickMin\<close> and reaches the
  anchor by repeated rounded additions of the step. In every conforming runtime, on
  \<open>[-3.9, 1]\<close> with five ticks the fourth tick is \<open>-2\<^sup>-\<^sup>5\<^sup>1\<close>, not 0; and on \<open>[-1, 1]\<close>
  with \<open>tickCount = 2\<close> the call returns no ticks at all, since its step search does not
  return. On \<open>[-0.3, 0.1]\<close> with five ticks, where \<^verbatim>\<open>Math.floor(Math.log10(0.1))\<close> is
  \<open>-1\<close> and \<^verbatim>\<open>10 ** -1\<close> is \<open>0.1\<close>, the fourth tick is \<open>-2\<^sup>-\<^sup>5\<^sup>5\<close>, not 0.
\<close>

theorem getNiceTickValues_zero_missing:
  assumes "conforms rt"
  shows "getNiceTickValues rt (fl (- (39 / 10)), Fin 1) 5 True =
     Some [Fin (- (2195504818343117 / 562949953421312)),
           Fin (- (2927339757790823 / 1125899906842624)),
           Fin (- (5854679515581647 / 4503599627370496)),
           Fin (- (1 / 2251799813685248)),
           Fin (5854679515581643 / 4503599627370496)] \<and>
   Fin 0 \<notin> set [Fin (- (2195504818343117 / 562949953421312)),
                 Fin (- (2927339757790823 / 1125899906842624)),
                 Fin (- (5854679515581647 / 4503599627370496)),
                 Fin (- (1 / 2251799813685248)),
                 Fin (5854679515581643 / 4503599627370496)] \<and>
   getNiceTickValues rt (Fin (- 1), Fin 1) 2 True = None \<and>
   (Math_floor (Math_log10 rt (fl (1 / 10))) = Fin (- 1) \<and> pow10 rt (Fin (- 1)) = fl (1 / 10) \<longrightarrow>
    getNiceTickValues rt (fl (- (3 / 10)), fl (1 / 10)) 5 True =
      Some [Fin (- (1351079888211149 / 4503599627370496)),
            Fin (- (7205759403792795 / 36028797018963968)),
            Fin (- (1801439850948199 / 18014398509481984)),
            Fin (- (1 / 36028797018963968)),
            Fin (900719925474099 / 9007199254740992)])"
proof (intro conjI impI)
  show "getNiceTickValues rt (fl (- (39 / 10)), Fin 1) 5 True =
     Some [Fin (- (2195504818343117 / 562949953421312)),
           Fin (- (2927339757790823 / 1125899906842624)),
           Fin (- (5854679515581647 / 4503599627370496)),
           Fin (- (1 / 2251799813685248)),
           Fin (5854679515581643 / 4503599627370496)]"
    unfolding literals_zero_missing by (rule getNiceTickValues_39_1 [OF assms])
  show "getNiceTickValues rt (Fin (- 1), Fin 1) 2 True = None"
    by (rule getNiceTickValues_never [OF assms])
  show "Fin 0 \<notin> set [Fin (- (2195504818343117 / 562949953421312)),
                 Fin (- (2927339757790823 / 1125899906842624)),
                 Fin (- (5854679515581647 / 4503599627370496)),
                 Fin (- (1 / 2251799813685248)),
                 Fin (5854679515581643 / 4503599627370496)]"
    by simp
next
  assume "Math_floor (Math_log10 rt (fl (1 / 10))) = Fin (- 1) \<and> pow10 rt (Fin (- 1)) = fl (1 / 10)"
  then have f: "Math_floor (Math_log10 rt (Fin (3602879701896397 / 36028797018963968))) = Fin (- 1)"
    and p: "pow10 rt (Fin (- 1)) = Fin (3602879701896397 / 36028797018963968)"
    unfolding literals_zero_missing by blast+
  show "getNiceTickValues rt (fl (- (3 / 10)), fl (1 / 10)) 5 True =
      Some [Fin (- (1351079888211149 / 4503599627370496)),
            Fin (- (7205759403792795 / 36028797018963968)),
            Fin (- (1801439850948199 / 18014398509481984)),
            Fin (- (1 / 36028797018963968)),
            Fin (900719925474099 / 9007199254740992)]"
    unfolding literals_zero_missing by (rule getNiceTickValues_03_01 [OF f p])
qed

theorem getNiceTickValues_zero_missing_witness:
  "conforms reference \<and>
   getNiceTickValues reference (fl (- (39 / 10)), Fin 1) 5 True =
     Some [Fin (- (2195504818343117 / 562949953421312)),
           Fin (- (2927339757790823 / 1125899906842624)),
           Fin (- (5854679515581647 / 4503599627370496)),
           Fin (- (1 / 2251799813685248)),
           Fin (5854679515581643 / 4503599627370496)] \<and>
   getNiceTickValues reference (Fin (- 1), Fin 1) 2 True = None \<and>
   Math_floor (Math_log10 reference (fl (1 / 10))) = Fin (- 1) \<and>
   pow10 reference (Fin (- 1)) = fl (1 / 10) \<and>
   getNiceTickValues reference (fl (- (3 / 10)), fl (1 / 10)) 5 True =
     Some [Fin (- (1351079888211149 / 4503599627370496)),
           Fin (- (7205759403792795 / 36028797018963968)),
           Fin (- (1801439850948199 / 18014398509481984)),
           Fin (- (1 / 36028797018963968)),
           Fin (900719925474099 / 9007199254740992)] \<and>
   Fin 0 \<notin> set [Fin (- (1351079888211149 / 4503599627370496)),
                 Fin (- (7205759403792795 / 36028797018963968)),
                 Fin (- (1801439850948199 / 18014398509481984)),
                 Fin (- (1 / 36028797018963968)),
                 Fin (900719925474099 / 9007199254740992)]"
proof -
  note t = getNiceTickValues_zero_missing [OF conforms_reference]
  have z: "Fin 0 \<notin> set [Fin (- (1351079888211149 / 4503599627370496)),
                 Fin (- (7205759403792795 / 36028797018963968)),
                 Fin (- (1801439850948199 / 18014398509481984)),
                 Fin (- (1 / 36028797018963968)),
                 Fin (900719925474099 / 9007199254740992)]"
    by simp
  show ?thesis
    using conforms_reference reference_tenth t z by blast
qed

section \<open>The order of the two bounds\<close>

text \<open>
  Whenever one of the two calls returns, so does the other, and the two lists are
  reversals of each other.
\<close>

lemma getNiceTickValues_swap:
  "a \<noteq> b \<Longrightarrow>
   getNiceTickValues rt (Fin a, Fin b) tickCount allowDecimals =
   map_option rev (getNiceTickValues rt (Fin b, Fin a) tickCount allowDecimals)"
  by (cases "a < b")
    (auto simp add: getNiceTickValues_def getValidInterval_def num_gt_def num_eq_def Let_def
      split: option.splits)

text \<open>
  C5 claims that for all finite \<open>a \<noteq> b\<close>, every \<open>tickCount\<close> and \<^verbatim>\<open>allowDecimals\<close>,
  \<^verbatim>\<open>getNiceTickValues([a, b], tickCount, allowDecimals)\<close> equals the reversal of
  \<^verbatim>\<open>getNiceTickValues([b, a], tickCount, allowDecimals)\<close>. On \<open>a = -1\<close>, \<open>b = 1\<close>,
  \<open>tickCount = 2\<close> neither call returns a list, in any conforming runtime: both
  normalise the bounds to \<open>[-1, 1]\<close> and enter the step search that does not return.
\<close>

theorem getNiceTickValues_reverse_no_result:
  "conforms rt \<Longrightarrow>
   getNiceTickValues rt (Fin (- 1), Fin 1) 2 allowDecimals = None \<and>
   getNiceTickValues rt (Fin 1, Fin (- 1)) 2 allowDecimals = None"
  by (simp add: getNiceTickValues_never)

theorem getNiceTickValues_reverse_no_result_witness:
  "conforms reference \<and>
   getNiceTickValues reference (Fin (- 1), Fin 1) 2 True = None \<and>
   getNiceTickValues reference (Fin 1, Fin (- 1)) 2 True = None"
  using conforms_reference getNiceTickValues_reverse_no_result [OF conforms_reference, of True]
  by blast

section \<open>A single value\<close>

text \<open>
  C6, as the spec states it: \<^verbatim>\<open>getNiceTickValues([5, 5], 4)\<close> returns \<open>[3, 4, 5, 6]\<close>.
  The code does not: the value is placed at index \<open>\<lfloor>(tickCount - 1) / 2\<rfloor> = 1\<close>.
\<close>

theorem getNiceTickValues_5_5_4_counterexample:
  "getNiceTickValues reference (Fin 5, Fin 5) 4 True \<noteq> Some [Fin 3, Fin 4, Fin 5, Fin 6]"
  by (simp add: getNiceTickValues_single getTickOfSingleValue_5_4)

text \<open>
  C6, amended: \<^verbatim>\<open>getNiceTickValues([5, 5], 4)\<close> returns the four ticks
  \<open>[4, 5, 6, 7]\<close>, of step 1, with the value 5 at index 1. The runtime has no part in
  it: neither \<^verbatim>\<open>Math.log10\<close> nor \<^verbatim>\<open>**\<close> is called.
\<close>

theorem getNiceTickValues_5_5_4:
  "getNiceTickValues rt (Fin 5, Fin 5) 4 True = Some [Fin 4, Fin 5, Fin 6, Fin 7]"
  by (simp add: getNiceTickValues_single getTickOfSingleValue_5_4)

section \<open>Infinite bounds\<close>

text \<open>
  C7. \<^verbatim>\<open>getNiceTickValues([-Infinity, 5], 4)\<close> returns
  \<open>[-\<infinity>, -\<infinity>, -\<infinity>, 5]\<close>, and \<^verbatim>\<open>getNiceTickValues([5, -Infinity], 4)\<close> returns the
  reversed list \<open>[5, -\<infinity>, -\<infinity>, -\<infinity>]\<close>, whatever the runtime.
\<close>

theorem getNiceTickValues_infinite_bound:
  "getNiceTickValues rt (NInf, Fin 5) 4 True = Some [NInf, NInf, NInf, Fin 5] \<and>
   getNiceTickValues rt (Fin 5, NInf) 4 True = Some [Fin 5, NInf, NInf, NInf]"
  by (simp add: getNiceTickValues_def getValidInterval_def num_gt_def num_eq_def
      range_int_def upto_rec1)

section \<open>The guard of the step search\<close>

text \<open>
  C9. When \<^verbatim>\<open>(max - min) / (tickCount - 1)\<close> is not finite, \<^verbatim>\<open>calculateStep\<close> returns
  the zero step \<open>\<lparr>step = 0, tickMin = 0, tickMax = 0\<rparr>\<close> from its guard, before any
  recursive call, whatever the runtime.
\<close>

theorem calculateStep_nonfinite:
  "\<not> isFinite (num_div (num_sub mx mn) (num_sub (num tickCount) (Fin 1))) \<Longrightarrow>
   calculateStep rt mn mx tickCount allowDecimals correctionFactor =
   Some \<lparr>step = Fin 0, tickMin = Fin 0, tickMax = Fin 0\<rparr>"
  by (simp add: calculateStep.simps)

theorem calculateStep_nonfinite_witness:
  "\<not> isFinite (num_div (num_sub (Fin 5) (Fin 0)) (num_sub (num 1) (Fin 1))) \<and>
   calculateStep reference (Fin 0) (Fin 5) 1 True (Fin 0) =
   Some \<lparr>step = Fin 0, tickMin = Fin 0, tickMax = Fin 0\<rparr>"
proof -
  have h: "\<not> isFinite (num_div (num_sub (Fin 5) (Fin 0)) (num_sub (num 1) (Fin 1)))"
    by (simp add: num_sub_def num_def fl_eval inf_of_sgn_def)
  show ?thesis
    using h calculateStep_nonfinite [OF h, of reference True "Fin 0"] by simp
qed

end
